theory Spec2Isabelle
  imports Main
begin

section \<open>Data model of the document processor front end\<close>

text \<open>
  The component \<open>DocumentProcessor\<close> keeps its state in React state variables and changes
  it only inside event handlers and the continuations of their \<open>await\<close>s. JavaScript
  runs each of these pieces to completion, so the model is a state record and one
  function per piece; the environment (user, timers, HTTP responses) chooses the order
  of the pieces. A handler reads the state variables of the render it was created in:
  a click handler reads the current state, and the code after an \<open>await\<close> still reads
  what its closure captured before it. All writes go through functional updates
  (\<open>setX(prev => ...)\<close>) or constants, so they apply to the current state in order.

  Values that come from the server or from form fields are JSON values. Numbers are
  restricted to integers: every number the handlers themselves compute is one.
\<close>

datatype json =
    JNull
  | JBool bool
  | JNum int
  | JStr string
  | JArr "json list"
  | JObj "(string \<times> json) list"

text \<open>The configuration object: section name to (key to value).\<close>

type_synonym config_section = "string \<rightharpoonup> json"
type_synonym config = "string \<rightharpoonup> config_section"

definition DEFAULT_CONFIG :: config where
  "DEFAULT_CONFIG =
     [''chunking'' \<mapsto>
        [''chunkSize'' \<mapsto> JNum 800,
         ''overlapSize'' \<mapsto> JNum 100,
         ''minChunkSize'' \<mapsto> JNum 200,
         ''respectBoundaries'' \<mapsto> JBool True,
         ''strategy'' \<mapsto> JStr ''semantic''],
      ''embedding'' \<mapsto>
        [''model'' \<mapsto> JStr ''voyagerai'',
         ''dimensions'' \<mapsto> JNum 1024],
      ''weaviate'' \<mapsto>
        [''url'' \<mapsto> JStr [],
         ''apiKey'' \<mapsto> JStr []],
      ''cleaning'' \<mapsto>
        [''removeHeaders'' \<mapsto> JBool True,
         ''removeFooters'' \<mapsto> JBool True,
         ''removePageNumbers'' \<mapsto> JBool True,
         ''removeExtraWhitespace'' \<mapsto> JBool True,
         ''normalizeQuotes'' \<mapsto> JBool True,
         ''fixHyphenation'' \<mapsto> JBool True]]"

text \<open>
  The status strings the handlers write, on a file object (\<open>status\<close>) and in
  \<open>processingStatus[id].status\<close>.
\<close>

datatype doc_status =
    Uploading | Pending | Processing | Reprocessing | Indexing
  | Completed | Indexed | Error

text \<open>
  An element of \<open>files\<close>. \<open>f_file\<close> stands for the browser's File object, which the
  handlers compare by reference; \<open>f_error\<close> and \<open>f_indexingStats\<close> are absent
  (\<open>None\<close>) until a handler adds them.
\<close>

record file_obj =
  f_file :: nat
  f_id :: string
  f_status :: doc_status
  f_progress :: int
  f_chunks :: "json list"
  f_metadata :: "json option"
  f_error :: "string option"
  f_indexingStats :: "json option"

text \<open>
  A value of \<open>processingStatus[id]\<close>: \<open>{status, progress}\<close> or \<open>{status, error}\<close>.
\<close>

record proc_status =
  ps_status :: doc_status
  ps_progress :: "int option"
  ps_error :: "string option"

text \<open>
  A call of \<open>processDocument\<close>, \<open>reprocessCurrentDocument\<close> or \<open>sendToWeaviate\<close> that
  has passed its synchronous part lives on as a run: the values its closure captured
  (the document id, \<open>config\<close>, which a processing call sends along and an index call
  does not, and \<open>currentDocument\<close>), the local counter \<open>progress\<close> of its
  \<open>setInterval\<close> callback, whether that interval is still registered, and whether its
  HTTP call is still outstanding.
\<close>

datatype run_kind = ProcessRun | ReprocessRun | IndexRun

record run =
  run_kind :: run_kind
  run_doc :: string
  run_config :: config
  run_current :: "file_obj option"
  run_progress :: int
  run_interval :: bool
  run_awaiting :: bool

text \<open>
  A call of \<open>handleFileUpload\<close> between two files of its loop: the file whose upload is
  outstanding, the files still to come (each with the temporary id that
  \<open>Date.now()\<close> and \<open>Math.random()\<close> will give it), and the \<open>config\<close> and
  \<open>currentDocument\<close> that the \<open>processDocument\<close> of its render captured.
\<close>

record upload_task =
  up_file :: nat
  up_rest :: "(nat \<times> string) list"
  up_config :: config
  up_current :: "file_obj option"
  up_awaiting :: bool

datatype conn_call = StatusProbe | WeaviateConnect | EmbedderConnect

text \<open>Where a handler writes to the console or raises an alert box.\<close>

datatype log_site =
    UploadFailed | ProcessFailed | ReprocessFailed | IndexFailed
  | WeaviateConnectFailed | EmbedderConnectFailed | StatusCheckFailed

record app_state =
  files :: "file_obj list"
  processingStatus :: "string \<rightharpoonup> proc_status"
  currentDocument :: "file_obj option"
  documentChunks :: "json list"
  config :: config
  weaviateStatus :: string
  embeddingStatus :: string
  indexingStats :: "json option"
  runs :: "run list"
  uploads :: "upload_task list"
  connects :: "conn_call list"
  console :: "(log_site \<times> string) list"
  alerts :: "(log_site \<times> string) list"

text \<open>
  The state after the first render: the \<open>useState\<close> initial values, and the status probe
  of the mount effect outstanding.
\<close>

definition init_state :: app_state where
  "init_state =
     \<lparr> files = [], processingStatus = Map.empty, currentDocument = None,
       documentChunks = [], config = DEFAULT_CONFIG,
       weaviateStatus = ''disconnected'', embeddingStatus = ''disconnected'',
       indexingStats = None, runs = [], uploads = [], connects = [StatusProbe],
       console = [], alerts = [] \<rparr>"

text \<open>
  How the synchronous part of an async handler ends: it returns, it reaches its
  \<open>await\<close> as run number \<open>n\<close>, or it throws. Every handler of the component keeps its
  body inside \<open>try\<close>/\<open>catch\<close> or returns early, so none of them ends in \<open>Raised\<close>.
\<close>

datatype outcome = Returned | Awaiting nat | Raised string

section \<open>The handlers\<close>

subsection \<open>Configuration and selection\<close>

text \<open>
  \<open>setConfig(prev => ({...prev, [section]: {...prev[section], [key]: value}}))\<close>.
  Spreading an absent section contributes no key.
\<close>

definition handleConfigChange :: "string \<Rightarrow> string \<Rightarrow> json \<Rightarrow> app_state \<Rightarrow> app_state" where
  "handleConfigChange sec key val s =
     s\<lparr>config :=
         (config s)(sec \<mapsto>
           (case config s sec of None \<Rightarrow> Map.empty | Some old \<Rightarrow> old)(key \<mapsto> val))\<rparr>"

text \<open>An array is truthy even when empty, so \<open>fileObj.chunks\<close> decides nothing here.\<close>

definition handleSelectDocument :: "file_obj option \<Rightarrow> app_state \<Rightarrow> app_state" where
  "handleSelectDocument fileObj s =
     s\<lparr>currentDocument := fileObj,
       documentChunks := (case fileObj of None \<Rightarrow> [] | Some f \<Rightarrow> f_chunks f)\<rparr>"

subsection \<open>Runs: start, interval tick, resolution and rejection\<close>

definition new_run :: "run_kind \<Rightarrow> string \<Rightarrow> config \<Rightarrow> file_obj option \<Rightarrow> run" where
  "new_run k d cfg cur =
     \<lparr> run_kind = k, run_doc = d, run_config = cfg, run_current = cur,
       run_progress = 0, run_interval = True, run_awaiting = True \<rparr>"

definition in_progress :: "doc_status \<Rightarrow> int \<Rightarrow> proc_status" where
  "in_progress st p = \<lparr> ps_status = st, ps_progress = Some p, ps_error = None \<rparr>"

definition failed :: "string \<Rightarrow> proc_status" where
  "failed msg = \<lparr> ps_status = Error, ps_progress = None, ps_error = Some msg \<rparr>"

text \<open>
  \<open>processDocument(fileObj)\<close> up to its \<open>await\<close>. Only \<open>fileObj.id\<close> is read; \<open>cfg\<close>
  and \<open>cur\<close> are the \<open>config\<close> and \<open>currentDocument\<close> of the closure.
\<close>

definition processDocument :: "string \<Rightarrow> config \<Rightarrow> file_obj option \<Rightarrow> app_state \<Rightarrow> app_state" where
  "processDocument fid cfg cur s =
     s\<lparr>processingStatus := (processingStatus s)(fid \<mapsto> in_progress Processing 0),
       runs := runs s @ [new_run ProcessRun fid cfg cur]\<rparr>"

definition reprocessCurrentDocument :: "app_state \<Rightarrow> outcome \<times> app_state" where
  "reprocessCurrentDocument s =
     (case currentDocument s of
        None \<Rightarrow> (Returned, s)
      | Some cur \<Rightarrow>
          (Awaiting (length (runs s)),
           s\<lparr>processingStatus := (processingStatus s)(f_id cur \<mapsto> in_progress Reprocessing 0),
             runs := runs s @ [new_run ReprocessRun (f_id cur) (config s) (Some cur)]\<rparr>))"

definition sendToWeaviate :: "app_state \<Rightarrow> outcome \<times> app_state" where
  "sendToWeaviate s =
     (case currentDocument s of
        None \<Rightarrow> (Returned, s)
      | Some cur \<Rightarrow>
          if weaviateStatus s \<noteq> ''connected'' \<or> embeddingStatus s \<noteq> ''connected''
          then (Returned, s)
          else
            (Awaiting (length (runs s)),
             s\<lparr>processingStatus := (processingStatus s)(f_id cur \<mapsto> in_progress Indexing 0),
               runs := runs s @ [new_run IndexRun (f_id cur) (config s) (Some cur)]\<rparr>))"

text \<open>The label and the increment of a run's interval callback.\<close>

fun run_label :: "run_kind \<Rightarrow> doc_status" where
  "run_label ProcessRun = Processing"
| "run_label ReprocessRun = Reprocessing"
| "run_label IndexRun = Indexing"

fun run_increment :: "run_kind \<Rightarrow> int" where
  "run_increment ProcessRun = 5"
| "run_increment ReprocessRun = 10"
| "run_increment IndexRun = 5"

text \<open>
  One firing of the interval callback of run \<open>r\<close>: \<open>progress += inc; if (progress <= 90)
  setProcessingStatus(...)\<close>. A cleared interval does not fire.
\<close>

definition interval_tick :: "nat \<Rightarrow> app_state \<Rightarrow> app_state" where
  "interval_tick r s =
     (if r < length (runs s) \<and> run_interval (runs s ! r) then
        let ru = runs s ! r;
            p = run_progress ru + run_increment (run_kind ru);
            s1 = s\<lparr>runs := (runs s)[r := ru\<lparr>run_progress := p\<rparr>]\<rparr>
        in if p \<le> 90
           then s1\<lparr>processingStatus :=
                    (processingStatus s1)(run_doc ru \<mapsto> in_progress (run_label (run_kind ru)) p)\<rparr>
           else s1
      else s)"

text \<open>What the two API calls answer.\<close>

record process_result =
  res_chunks :: "json list"
  res_metadata :: json

datatype api_response = ProcessResponse process_result | IndexResponse json

definition settle :: "nat \<Rightarrow> bool \<Rightarrow> app_state \<Rightarrow> app_state" where
  "settle r clear s =
     s\<lparr>runs := (runs s)[r := (runs s ! r)\<lparr>run_awaiting := False,
                                 run_interval := run_interval (runs s ! r) \<and> \<not> clear\<rparr>]\<rparr>"

definition store_result :: "string \<Rightarrow> process_result \<Rightarrow> file_obj \<Rightarrow> file_obj" where
  "store_result d res f =
     (if f_id f = d
      then f\<lparr>f_status := Completed, f_chunks := res_chunks res,
             f_metadata := Some (res_metadata res)\<rparr>
      else f)"

definition store_index :: "string \<Rightarrow> json \<Rightarrow> file_obj \<Rightarrow> file_obj" where
  "store_index d stats f =
     (if f_id f = d
      then f\<lparr>f_status := Indexed, f_indexingStats := Some stats\<rparr>
      else f)"

definition store_error :: "string \<Rightarrow> string \<Rightarrow> file_obj \<Rightarrow> file_obj" where
  "store_error d msg f =
     (if f_id f = d then f\<lparr>f_status := Error, f_error := Some msg\<rparr> else f)"

text \<open>
  The code after a fulfilled \<open>await\<close>: \<open>clearInterval\<close>, then the state updates of the
  handler that started the run. A response of the other call's shape never reaches a run.
\<close>

definition api_resolved :: "nat \<Rightarrow> api_response \<Rightarrow> app_state \<Rightarrow> app_state" where
  "api_resolved r resp s =
     (if r < length (runs s) \<and> run_awaiting (runs s ! r) then
        let ru = runs s ! r; d = run_doc ru; s1 = settle r True s in
        (case (run_kind ru, resp) of
           (ProcessRun, ProcessResponse res) \<Rightarrow>
             s1\<lparr>processingStatus := (processingStatus s1)(d \<mapsto> in_progress Completed 100),
                files := map (store_result d res) (files s1),
                documentChunks :=
                  (case run_current ru of
                     None \<Rightarrow> documentChunks s1
                   | Some cur \<Rightarrow> if f_id cur = d then res_chunks res else documentChunks s1)\<rparr>
         | (ReprocessRun, ProcessResponse res) \<Rightarrow>
             s1\<lparr>processingStatus := (processingStatus s1)(d \<mapsto> in_progress Completed 100),
                files := map (store_result d res) (files s1),
                documentChunks := res_chunks res\<rparr>
         | (IndexRun, IndexResponse stats) \<Rightarrow>
             s1\<lparr>processingStatus := (processingStatus s1)(d \<mapsto> in_progress Indexed 100),
                indexingStats := Some stats,
                files := map (store_index d stats) (files s1)\<rparr>
         | _ \<Rightarrow> s)
      else s)"

text \<open>
  The \<open>catch\<close> block after a rejected \<open>await\<close>. \<open>clearInterval\<close> stands after the
  \<open>await\<close> inside \<open>try\<close>, so it is skipped and the interval stays registered.
\<close>

definition api_rejected :: "nat \<Rightarrow> string \<Rightarrow> app_state \<Rightarrow> app_state" where
  "api_rejected r msg s =
     (if r < length (runs s) \<and> run_awaiting (runs s ! r) then
        let ru = runs s ! r; d = run_doc ru; s1 = settle r False s;
            s2 = s1\<lparr>processingStatus := (processingStatus s1)(d \<mapsto> failed msg)\<rparr>
        in (case run_kind ru of
              ProcessRun \<Rightarrow>
                s2\<lparr>console := console s2 @ [(ProcessFailed, msg)],
                   files := map (store_error d msg) (files s2)\<rparr>
            | ReprocessRun \<Rightarrow>
                s2\<lparr>console := console s2 @ [(ReprocessFailed, msg)]\<rparr>
            | IndexRun \<Rightarrow>
                s2\<lparr>console := console s2 @ [(IndexFailed, msg)],
                   alerts := alerts s2 @ [(IndexFailed, msg)]\<rparr>)
      else s)"

subsection \<open>Upload\<close>

definition new_file :: "nat \<Rightarrow> string \<Rightarrow> file_obj" where
  "new_file file tmp =
     \<lparr> f_file = file, f_id = tmp, f_status = Uploading, f_progress = 0, f_chunks = [],
       f_metadata = None, f_error = None, f_indexingStats = None \<rparr>"

text \<open>
  \<open>handleFileUpload\<close> from the top of its loop to the first \<open>await\<close>. The argument lists
  the selected files, each with the temporary id it will get.
\<close>

definition handleFileUpload :: "(nat \<times> string) list \<Rightarrow> app_state \<Rightarrow> app_state" where
  "handleFileUpload newFiles s =
     (case newFiles of
        [] \<Rightarrow> s
      | (file, tmp) # rest \<Rightarrow>
          s\<lparr>files := files s @ [new_file file tmp],
            uploads := uploads s @
              [\<lparr> up_file = file, up_rest = rest, up_config = config s,
                 up_current = currentDocument s, up_awaiting = True \<rparr>]\<rparr>)"

text \<open>The next iteration of the loop of task \<open>t\<close>, up to its \<open>await\<close>, or the loop's end.\<close>

fun upload_next :: "nat \<Rightarrow> (nat \<times> string) list \<Rightarrow> app_state \<Rightarrow> app_state" where
  "upload_next t [] s =
     s\<lparr>uploads := (uploads s)[t := (uploads s ! t)\<lparr>up_rest := [], up_awaiting := False\<rparr>]\<rparr>"
| "upload_next t ((file, tmp) # rest) s =
     s\<lparr>files := files s @ [new_file file tmp],
       uploads := (uploads s)[t := (uploads s ! t)\<lparr>up_file := file, up_rest := rest\<rparr>]\<rparr>"

definition mark_pending :: "nat \<Rightarrow> string \<Rightarrow> file_obj \<Rightarrow> file_obj" where
  "mark_pending file newid f =
     (if f_file f = file then f\<lparr>f_id := newid, f_status := Pending, f_progress := 0\<rparr> else f)"

definition mark_upload_error :: "nat \<Rightarrow> string \<Rightarrow> file_obj \<Rightarrow> file_obj" where
  "mark_upload_error file msg f =
     (if f_file f = file then f\<lparr>f_status := Error, f_error := Some msg\<rparr> else f)"

text \<open>
  The upload of the current file answered with \<open>uploadResult.id = newid\<close>: the file
  becomes pending, \<open>processDocument\<close> is called (and not awaited), and the loop goes on.
\<close>

definition upload_resolved :: "nat \<Rightarrow> string \<Rightarrow> app_state \<Rightarrow> app_state" where
  "upload_resolved t newid s =
     (if t < length (uploads s) \<and> up_awaiting (uploads s ! t) then
        let u = uploads s ! t;
            s1 = s\<lparr>files := map (mark_pending (up_file u) newid) (files s)\<rparr>;
            s2 = processDocument newid (up_config u) (up_current u) s1
        in upload_next t (up_rest u) s2
      else s)"

definition upload_rejected :: "nat \<Rightarrow> string \<Rightarrow> app_state \<Rightarrow> app_state" where
  "upload_rejected t msg s =
     (if t < length (uploads s) \<and> up_awaiting (uploads s ! t) then
        let u = uploads s ! t;
            s1 = s\<lparr>console := console s @ [(UploadFailed, msg)],
                   files := map (mark_upload_error (up_file u) msg) (files s)\<rparr>
        in upload_next t (up_rest u) s1
      else s)"

text \<open>
  The effect with dependencies \<open>[files, processDocument]\<close>: every file whose status is
  \<open>pending\<close> is handed to \<open>processDocument\<close>, with the \<open>config\<close> and
  \<open>currentDocument\<close> of the render that runs the effect.
\<close>

definition pendingEffect :: "app_state \<Rightarrow> app_state" where
  "pendingEffect s =
     fold (\<lambda>f. processDocument (f_id f) (config s) (currentDocument s))
       (filter (\<lambda>f. f_status f = Pending) (files s)) s"

subsection \<open>Connections\<close>

definition connectToWeaviate :: "app_state \<Rightarrow> app_state" where
  "connectToWeaviate s =
     s\<lparr>weaviateStatus := ''connecting'', connects := connects s @ [WeaviateConnect]\<rparr>"

definition connectToEmbedder :: "app_state \<Rightarrow> app_state" where
  "connectToEmbedder s =
     s\<lparr>embeddingStatus := ''connecting'', connects := connects s @ [EmbedderConnect]\<rparr>"

text \<open>
  A connection call that answers: the status probe with the two status strings of the
  server, the two connect calls with nothing the handlers read.
\<close>

datatype conn_answer = StatusAnswer string string | ConnectAnswer

definition conn_resolved :: "conn_call \<Rightarrow> conn_answer \<Rightarrow> app_state \<Rightarrow> app_state" where
  "conn_resolved c a s =
     (if c \<in> set (connects s) then
        let s1 = s\<lparr>connects := remove1 c (connects s)\<rparr> in
        (case (c, a) of
           (StatusProbe, StatusAnswer w e) \<Rightarrow> s1\<lparr>weaviateStatus := w, embeddingStatus := e\<rparr>
         | (WeaviateConnect, ConnectAnswer) \<Rightarrow> s1\<lparr>weaviateStatus := ''connected''\<rparr>
         | (EmbedderConnect, ConnectAnswer) \<Rightarrow> s1\<lparr>embeddingStatus := ''connected''\<rparr>
         | _ \<Rightarrow> s)
      else s)"

definition conn_rejected :: "conn_call \<Rightarrow> string \<Rightarrow> app_state \<Rightarrow> app_state" where
  "conn_rejected c msg s =
     (if c \<in> set (connects s) then
        let s1 = s\<lparr>connects := remove1 c (connects s)\<rparr> in
        (case c of
           StatusProbe \<Rightarrow> s1\<lparr>console := console s1 @ [(StatusCheckFailed, msg)]\<rparr>
         | WeaviateConnect \<Rightarrow>
             s1\<lparr>weaviateStatus := ''disconnected'',
                console := console s1 @ [(WeaviateConnectFailed, msg)],
                alerts := alerts s1 @ [(WeaviateConnectFailed, msg)]\<rparr>
         | EmbedderConnect \<Rightarrow>
             s1\<lparr>embeddingStatus := ''disconnected'',
                console := console s1 @ [(EmbedderConnectFailed, msg)],
                alerts := alerts s1 @ [(EmbedderConnectFailed, msg)]\<rparr>)
      else s)"

section \<open>The event loop\<close>

text \<open>
  Everything that can happen to the component. An event that cannot happen in a state
  (a response for a call that is not outstanding, a click on a row that is not there)
  leaves the state as it is.
\<close>

datatype event =
    FileUpload "(nat \<times> string) list"
  | UploadResolved nat string
  | UploadRejected nat string
  | PendingEffect
  | SelectDocument nat
  | ConfigChange string string json
  | Reprocess
  | SendToWeaviate
  | Tick nat
  | ApiResolved nat api_response
  | ApiRejected nat string
  | ConnectWeaviate
  | ConnectEmbedder
  | ConnResolved conn_call conn_answer
  | ConnRejected conn_call string

fun step :: "event \<Rightarrow> app_state \<Rightarrow> app_state" where
  "step (FileUpload newFiles) s = handleFileUpload newFiles s"
| "step (UploadResolved t newid) s = upload_resolved t newid s"
| "step (UploadRejected t msg) s = upload_rejected t msg s"
| "step PendingEffect s = pendingEffect s"
| "step (SelectDocument i) s =
     (if i < length (files s) then handleSelectDocument (Some (files s ! i)) s else s)"
| "step (ConfigChange sec key val) s = handleConfigChange sec key val s"
| "step Reprocess s = snd (reprocessCurrentDocument s)"
| "step SendToWeaviate s = snd (sendToWeaviate s)"
| "step (Tick r) s = interval_tick r s"
| "step (ApiResolved r resp) s = api_resolved r resp s"
| "step (ApiRejected r msg) s = api_rejected r msg s"
| "step ConnectWeaviate s = connectToWeaviate s"
| "step ConnectEmbedder s = connectToEmbedder s"
| "step (ConnResolved c a) s = conn_resolved c a s"
| "step (ConnRejected c msg) s = conn_rejected c msg s"

definition exec :: "event list \<Rightarrow> app_state \<Rightarrow> app_state" where
  "exec evs s = fold step evs s"

section \<open>Reading the state\<close>

text \<open>\<open>config[section][key]\<close>, with \<open>None\<close> for \<open>undefined\<close>.\<close>

definition config_field :: "config \<Rightarrow> string \<Rightarrow> string \<Rightarrow> json option" where
  "config_field c sec key = (case c sec of None \<Rightarrow> None | Some m \<Rightarrow> m key)"

text \<open>Run \<open>r\<close> of kind \<open>k\<close> for document id \<open>d\<close> has its HTTP call outstanding.\<close>

definition awaiting_run :: "app_state \<Rightarrow> nat \<Rightarrow> run_kind \<Rightarrow> string \<Rightarrow> bool" where
  "awaiting_run s r k d \<longleftrightarrow>
     r < length (runs s) \<and> run_awaiting (runs s ! r) \<and>
     run_kind (runs s ! r) = k \<and> run_doc (runs s ! r) = d"

text \<open>
  The shape of a \<open>processingStatus\<close> entry by its status: a run in flight shows a progress
  between 0 and 90, a finished one shows 100, a failed one shows no progress.
\<close>

definition entry_ok :: "proc_status \<Rightarrow> bool" where
  "entry_ok st =
     (case ps_status st of
        Processing \<Rightarrow> (case ps_progress st of Some p \<Rightarrow> 0 \<le> p \<and> p \<le> 90 | None \<Rightarrow> False)
      | Reprocessing \<Rightarrow> (case ps_progress st of Some p \<Rightarrow> 0 \<le> p \<and> p \<le> 90 | None \<Rightarrow> False)
      | Indexing \<Rightarrow> (case ps_progress st of Some p \<Rightarrow> 0 \<le> p \<and> p \<le> 90 | None \<Rightarrow> False)
      | Completed \<Rightarrow> ps_progress st = Some 100
      | Indexed \<Rightarrow> ps_progress st = Some 100
      | Error \<Rightarrow> ps_progress st = None
      | Uploading \<Rightarrow> False
      | Pending \<Rightarrow> False)"

definition progress_inv :: "app_state \<Rightarrow> bool" where
  "progress_inv s \<longleftrightarrow>
     (\<forall>d st. processingStatus s d = Some st \<longrightarrow> entry_ok st) \<and>
     (\<forall>ru \<in> set (runs s). 0 \<le> run_progress ru)"

text \<open>
  Which response answers which call (\<open>/process/{id}\<close> or \<open>/index/{id}\<close>), and the
  status a run writes when its call is answered.
\<close>

fun answers :: "run_kind \<Rightarrow> api_response \<Rightarrow> bool" where
  "answers IndexRun (IndexResponse stats) = True"
| "answers IndexRun (ProcessResponse res) = False"
| "answers k (ProcessResponse res) = True"
| "answers k (IndexResponse stats) = False"

fun finished :: "run_kind \<Rightarrow> doc_status" where
  "finished ProcessRun = Completed"
| "finished ReprocessRun = Completed"
| "finished IndexRun = Indexed"

text \<open>Every entry of \<open>s'\<close> that shows progress 100 is an entry of \<open>s\<close> already.\<close>

definition no_new_100 :: "app_state \<Rightarrow> app_state \<Rightarrow> bool" where
  "no_new_100 s s' \<longleftrightarrow>
     (\<forall>d st. processingStatus s' d = Some st \<longrightarrow> ps_progress st = Some 100 \<longrightarrow>
        processingStatus s d = Some st)"

text \<open>
  Modelled from the spec: the constraint on a chunk configuration (section 3,
  \<open>chunkSize > minChunkSize > 0\<close> and \<open>0 \<le> overlapSize < chunkSize\<close>), read off the
  front end's configuration object. The code that enforces it, the chunker of the back
  end, is not among the sources.
\<close>

definition chunking_constraint :: "config \<Rightarrow> bool" where
  "chunking_constraint c =
     (case (config_field c ''chunking'' ''chunkSize'',
            config_field c ''chunking'' ''overlapSize'',
            config_field c ''chunking'' ''minChunkSize'') of
        (Some (JNum cs), Some (JNum ov), Some (JNum mn)) \<Rightarrow>
          mn < cs \<and> 0 < mn \<and> 0 \<le> ov \<and> ov < cs
      | _ \<Rightarrow> False)"

section \<open>Sample runs of the component\<close>

definition demo_result :: process_result where
  "demo_result =
     \<lparr> res_chunks =
         [JObj [(''id'', JStr ''c1''), (''content'', JStr ''first chunk'')],
          JObj [(''id'', JStr ''c2''), (''content'', JStr ''second chunk'')]],
       res_metadata = JObj [(''language'', JStr ''fr'')] \<rparr>"

definition demo_result_2 :: process_result where
  "demo_result_2 =
     \<lparr> res_chunks = [JObj [(''id'', JStr ''d1''), (''content'', JStr ''only chunk'')]],
       res_metadata = JObj [(''language'', JStr ''en'')] \<rparr>"

definition demo_stats :: json where
  "demo_stats = JObj [(''chunks_count'', JNum 2), (''chunking_strategy'', JStr ''semantic'')]"

text \<open>
  One file is selected and uploaded; the call of \<open>processDocument\<close> in
  \<open>handleFileUpload\<close> starts run 0 and the effect on the pending file starts run 1; both
  calls answer; the user clicks the document.
\<close>

definition trace_selected :: "event list" where
  "trace_selected =
     [FileUpload [(0, ''file-1'')], UploadResolved 0 ''doc-1'', PendingEffect,
      ApiResolved 0 (ProcessResponse demo_result), ApiResolved 1 (ProcessResponse demo_result),
      SelectDocument 0]"

definition demo_selected :: app_state where
  "demo_selected = exec trace_selected init_state"

text \<open>Then both services are connected.\<close>

definition trace_connect :: "event list" where
  "trace_connect =
     [ConnectWeaviate, ConnResolved WeaviateConnect ConnectAnswer,
      ConnectEmbedder, ConnResolved EmbedderConnect ConnectAnswer]"

definition demo_connected :: app_state where
  "demo_connected = exec trace_connect demo_selected"

text \<open>Then the document is indexed (run 2) and clicked again.\<close>

definition demo_indexed :: app_state where
  "demo_indexed =
     exec [SendToWeaviate, ApiResolved 2 (IndexResponse demo_stats), SelectDocument 0]
       demo_connected"

text \<open>
  A document whose processing failed (both calls rejected), selected with both services
  connected.
\<close>

definition demo_unprocessed :: app_state where
  "demo_unprocessed =
     exec ([FileUpload [(0, ''file-1'')], UploadResolved 0 ''doc-1'', PendingEffect,
            ApiRejected 0 ''Network Error'', ApiRejected 1 ''Network Error'',
            SelectDocument 0] @ trace_connect) init_state"

text \<open>
  The sliders of the preview tab at \<open>chunkSize = 200\<close> (its minimum) and
  \<open>overlapSize = 300\<close> (its maximum); \<open>minChunkSize\<close> keeps its default 200.
\<close>

definition demo_bad_config :: app_state where
  "demo_bad_config =
     exec [ConfigChange ''chunking'' ''chunkSize'' (JNum 200),
           ConfigChange ''chunking'' ''overlapSize'' (JNum 300)] demo_selected"

text \<open>
  Two clicks on "Appliquer les changements" with a change of \<open>chunkSize\<close> in between
  start runs 2 and 3 for the same document.
\<close>

definition demo_two_runs :: app_state where
  "demo_two_runs =
     exec [Reprocess, ConfigChange ''chunking'' ''chunkSize'' (JNum 400), Reprocess]
       demo_selected"

text \<open>
  A plain upload: the call of \<open>processDocument\<close> in \<open>handleFileUpload\<close> and the effect
  on the pending file have each started a run for the document.
\<close>

definition demo_uploaded :: app_state where
  "demo_uploaded =
     exec [FileUpload [(0, ''file-1'')], UploadResolved 0 ''doc-1'', PendingEffect] init_state"

text \<open>Then the first of the two calls is answered; the second is still outstanding.\<close>

definition demo_first_answer :: app_state where
  "demo_first_answer = exec [ApiResolved 0 (ProcessResponse demo_result)] demo_uploaded"

text \<open>An upload after the sliders have been moved to the values above.\<close>

definition demo_bad_upload :: app_state where
  "demo_bad_upload =
     exec [ConfigChange ''chunking'' ''chunkSize'' (JNum 200),
           ConfigChange ''chunking'' ''overlapSize'' (JNum 300),
           FileUpload [(0, ''file-1'')], UploadResolved 0 ''doc-1''] init_state"

text \<open>The older request (run 2) is answered after the newer one (run 3).\<close>

definition demo_stale :: app_state where
  "demo_stale =
     exec [ApiResolved 3 (ProcessResponse demo_result_2),
           ApiResolved 2 (ProcessResponse demo_result)] demo_two_runs"

text \<open>The configuration of the spec's scenario 4, set through \<open>handleConfigChange\<close>.\<close>

definition demo_spec_config :: app_state where
  "demo_spec_config =
     exec [ConfigChange ''chunking'' ''chunkSize'' (JNum 50),
           ConfigChange ''chunking'' ''minChunkSize'' (JNum 80)] demo_selected"

text \<open>A failed indexing call and a failed reprocessing call (run 2 in both).\<close>

definition demo_index_failed :: app_state where
  "demo_index_failed = exec [SendToWeaviate, ApiRejected 2 ''Network Error''] demo_connected"

definition demo_reprocess_failed :: app_state where
  "demo_reprocess_failed = exec [Reprocess, ApiRejected 2 ''Network Error''] demo_selected"

text \<open>A reprocessing run (run 2) whose interval has fired ten times without an answer.\<close>

definition demo_ticking :: app_state where
  "demo_ticking =
     exec [Reprocess, Tick 2, Tick 2, Tick 2, Tick 2, Tick 2, Tick 2, Tick 2, Tick 2, Tick 2,
           Tick 2] demo_selected"

text \<open>The sample document's file object with status \<open>st\<close>, and a run that has ended.\<close>

definition demo_file :: "doc_status \<Rightarrow> file_obj" where
  "demo_file st =
     \<lparr> f_file = 0, f_id = ''doc-1'', f_status = st, f_progress = 0,
       f_chunks = res_chunks demo_result, f_metadata = Some (res_metadata demo_result),
       f_error = None, f_indexingStats = None \<rparr>"

definition done_run :: "run_kind \<Rightarrow> file_obj option \<Rightarrow> run" where
  "done_run k cur =
     \<lparr> run_kind = k, run_doc = ''doc-1'', run_config = DEFAULT_CONFIG, run_current = cur,
       run_progress = 0, run_interval = False, run_awaiting = False \<rparr>"

definition failed_file :: file_obj where
  "failed_file =
     \<lparr> f_file = 0, f_id = ''doc-1'', f_status = Error, f_progress = 0, f_chunks = [],
       f_metadata = None, f_error = Some ''Network Error'', f_indexingStats = None \<rparr>"

section \<open>The fixed-window chunker\<close>

text \<open>
  Modelled from the spec: the \<open>fixed\<close> strategy of \<open>split\<close> (section 4.2) with the
  configuration check of sections 3 and 7. The chunker is code of the back end
  (\<open>processors/chunking.py\<close>), which is not among the sources.
\<close>

datatype strategy = Fixed | Paragraph | Semantic

record chunk_config =
  chunkSize :: int
  overlapSize :: int
  minChunkSize :: int
  respectBoundaries :: bool
  strategy :: strategy

datatype split_error = ConfigError

definition valid_chunk_config :: "chunk_config \<Rightarrow> bool" where
  "valid_chunk_config c \<longleftrightarrow>
     minChunkSize c < chunkSize c \<and> 0 < minChunkSize c \<and>
     0 \<le> overlapSize c \<and> overlapSize c < chunkSize c"

text \<open>
  Modelled from the spec: the windows over a text of \<open>n\<close> characters, of width \<open>w\<close> and
  stride \<open>st\<close>, from offset \<open>i\<close> on. The window that reaches the end of the text is
  truncated to it and is the final one.
\<close>

function windows :: "nat \<Rightarrow> nat \<Rightarrow> nat \<Rightarrow> nat \<Rightarrow> (nat \<times> nat) list" where
  "windows n w st i =
     (if st = 0 \<or> n \<le> i then []
      else if n \<le> i + w then [(i, n)]
      else (i, i + w) # windows n w st (i + st))"
  by pat_completeness auto
termination
  by (relation "measure (\<lambda>(n, w, st, i). n - i)") auto

declare windows.simps [simp del]

text \<open>
  Modelled from the spec: a final window shorter than \<open>m\<close> is merged into the window
  before it.
\<close>

fun merge_last :: "nat \<Rightarrow> (nat \<times> nat) list \<Rightarrow> (nat \<times> nat) list" where
  "merge_last m [] = []"
| "merge_last m [x] = [x]"
| "merge_last m [(a, b), (c, d)] = (if d - c < m then [(a, d)] else [(a, b), (c, d)])"
| "merge_last m (x # y # z # zs) = x # merge_last m (y # z # zs)"

record text_chunk =
  tc_index :: nat
  tc_start :: nat
  tc_end :: nat
  tc_content :: string

definition mk_chunk :: "string \<Rightarrow> nat \<Rightarrow> nat \<times> nat \<Rightarrow> text_chunk" where
  "mk_chunk txt k x =
     \<lparr> tc_index = k, tc_start = fst x, tc_end = snd x,
       tc_content = take (snd x - fst x) (drop (fst x) txt) \<rparr>"

definition fixed_offsets :: "nat \<Rightarrow> chunk_config \<Rightarrow> (nat \<times> nat) list" where
  "fixed_offsets n c =
     merge_last (nat (minChunkSize c))
       (windows n (nat (chunkSize c)) (nat (chunkSize c - overlapSize c)) 0)"

text \<open>
  Modelled from the spec: \<open>split\<close> under the \<open>fixed\<close> strategy. An invalid configuration is
  rejected before any chunk is produced.
\<close>

definition split_fixed :: "string \<Rightarrow> chunk_config \<Rightarrow> split_error + text_chunk list" where
  "split_fixed txt c =
     (if \<not> valid_chunk_config c then Inl ConfigError
      else Inr (map (\<lambda>k. mk_chunk txt k (fixed_offsets (length txt) c ! k))
                  [0 ..< length (fixed_offsets (length txt) c)]))"

definition offsets_of :: "split_error + text_chunk list \<Rightarrow> split_error + (nat \<times> nat) list" where
  "offsets_of r = map_sum id (map (\<lambda>ch. (tc_start ch, tc_end ch))) r"

definition scenario_config :: chunk_config where
  "scenario_config =
     \<lparr> chunkSize = 100, overlapSize = 20, minChunkSize = 30,
       respectBoundaries = False, strategy = Fixed \<rparr>"

section \<open>Evaluating the sample runs\<close>

lemmas handler_defs =
  handleFileUpload_def upload_resolved_def upload_rejected_def processDocument_def
  api_resolved_def api_rejected_def handleSelectDocument_def connectToWeaviate_def
  connectToEmbedder_def conn_resolved_def conn_rejected_def handleConfigChange_def
  reprocessCurrentDocument_def sendToWeaviate_def interval_tick_def pendingEffect_def
  new_file_def new_run_def settle_def store_result_def store_index_def store_error_def
  mark_pending_def mark_upload_error_def Let_def

lemma demo_selected_eq:
  "demo_selected =
     \<lparr> files = [demo_file Completed],
       processingStatus = [''doc-1'' \<mapsto> in_progress Completed 100],
       currentDocument = Some (demo_file Completed),
       documentChunks = res_chunks demo_result, config = DEFAULT_CONFIG,
       weaviateStatus = ''disconnected'', embeddingStatus = ''disconnected'',
       indexingStats = None, runs = [done_run ProcessRun None, done_run ProcessRun None],
       uploads = [\<lparr> up_file = 0, up_rest = [], up_config = DEFAULT_CONFIG,
                    up_current = None, up_awaiting = False \<rparr>],
       connects = [StatusProbe], console = [], alerts = [] \<rparr>"
  by (simp add: demo_selected_def trace_selected_def exec_def init_state_def handler_defs
      demo_file_def done_run_def)

lemma demo_connected_eq:
  "demo_connected =
     demo_selected\<lparr>weaviateStatus := ''connected'', embeddingStatus := ''connected''\<rparr>"
  by (simp add: demo_connected_def trace_connect_def demo_selected_eq exec_def handler_defs)

lemma demo_indexed_eq:
  "demo_indexed =
     demo_connected
       \<lparr> files := [(demo_file Indexed)\<lparr>f_indexingStats := Some demo_stats\<rparr>],
         processingStatus := [''doc-1'' \<mapsto> in_progress Indexed 100],
         currentDocument := Some ((demo_file Indexed)\<lparr>f_indexingStats := Some demo_stats\<rparr>),
         indexingStats := Some demo_stats,
         runs := [done_run ProcessRun None, done_run ProcessRun None,
                  done_run IndexRun (Some (demo_file Completed))] \<rparr>"
  by (simp add: demo_indexed_def demo_connected_eq demo_selected_eq exec_def handler_defs
      demo_file_def done_run_def)

lemma demo_index_failed_eq:
  "demo_index_failed =
     demo_connected
       \<lparr> processingStatus := [''doc-1'' \<mapsto> failed ''Network Error''],
         runs := [done_run ProcessRun None, done_run ProcessRun None,
                  (done_run IndexRun (Some (demo_file Completed)))\<lparr>run_interval := True\<rparr>],
         console := [(IndexFailed, ''Network Error'')],
         alerts := [(IndexFailed, ''Network Error'')] \<rparr>"
  by (simp add: demo_index_failed_def demo_connected_eq demo_selected_eq exec_def handler_defs
      demo_file_def done_run_def)

lemma demo_reprocess_failed_eq:
  "demo_reprocess_failed =
     demo_selected
       \<lparr> processingStatus := [''doc-1'' \<mapsto> failed ''Network Error''],
         runs := [done_run ProcessRun None, done_run ProcessRun None,
                  (done_run ReprocessRun (Some (demo_file Completed)))\<lparr>run_interval := True\<rparr>],
         console := [(ReprocessFailed, ''Network Error'')] \<rparr>"
  by (simp add: demo_reprocess_failed_def demo_selected_eq exec_def handler_defs
      demo_file_def done_run_def)

lemma demo_unprocessed_eq:
  "demo_unprocessed =
     \<lparr> files = [failed_file],
       processingStatus = [''doc-1'' \<mapsto> failed ''Network Error''],
       currentDocument = Some failed_file,
       documentChunks = [], config = DEFAULT_CONFIG,
       weaviateStatus = ''connected'', embeddingStatus = ''connected'',
       indexingStats = None,
       runs = [(done_run ProcessRun None)\<lparr>run_interval := True\<rparr>,
               (done_run ProcessRun None)\<lparr>run_interval := True\<rparr>],
       uploads = [\<lparr> up_file = 0, up_rest = [], up_config = DEFAULT_CONFIG,
                    up_current = None, up_awaiting = False \<rparr>],
       connects = [StatusProbe],
       console = [(ProcessFailed, ''Network Error''), (ProcessFailed, ''Network Error'')],
       alerts = [] \<rparr>"
  by (simp add: demo_unprocessed_def trace_connect_def exec_def init_state_def handler_defs
      done_run_def failed_file_def)

section \<open>Changing the configuration\<close>

text \<open>
  Claim C9. \<open>handleConfigChange(s, k, v)\<close> replaces only the field \<open>config[s][k]\<close>:
  afterwards that field holds \<open>v\<close>, every other key of section \<open>s\<close> reads as before,
  every other section is the same object as before, and no state variable other than
  \<open>config\<close> has changed.
\<close>

theorem handleConfigChange_frame:
  "config_field (config (handleConfigChange sec key val s)) sec key = Some val \<and>
   (\<forall>k. k \<noteq> key \<longrightarrow>
      config_field (config (handleConfigChange sec key val s)) sec k
        = config_field (config s) sec k) \<and>
   (\<forall>sec'. sec' \<noteq> sec \<longrightarrow> config (handleConfigChange sec key val s) sec' = config s sec') \<and>
   handleConfigChange sec key val s = s\<lparr>config := config (handleConfigChange sec key val s)\<rparr>"
  by (simp add: handleConfigChange_def config_field_def split: option.splits)

theorem handleConfigChange_frame_witness:
  "config_field (config (handleConfigChange ''chunking'' ''chunkSize'' (JNum 400) init_state))
     ''chunking'' ''chunkSize'' = Some (JNum 400) \<and>
   config_field (config (handleConfigChange ''chunking'' ''chunkSize'' (JNum 400) init_state))
     ''chunking'' ''overlapSize'' = Some (JNum 100) \<and>
   config (handleConfigChange ''chunking'' ''chunkSize'' (JNum 400) init_state) ''cleaning''
     = DEFAULT_CONFIG ''cleaning''"
proof -
  have ne: "''overlapSize'' \<noteq> ''chunkSize''" "''cleaning'' \<noteq> ''chunking''"
    by simp_all
  have old: "config_field (config init_state) ''chunking'' ''overlapSize'' = Some (JNum 100)"
    by (simp add: config_field_def init_state_def DEFAULT_CONFIG_def)
  have cfg: "config init_state = DEFAULT_CONFIG"
    by (simp add: init_state_def)
  from handleConfigChange_frame [of "''chunking''" "''chunkSize''" "JNum 400" init_state]
    ne old cfg
  show ?thesis by metis
qed

section \<open>Indexing\<close>

subsection \<open>Indexing while a service is not connected\<close>

text \<open>
  Claim C1 says that \<open>sendToWeaviate\<close>, called while a collaborator is not connected,
  fails with a ConnectionError and leaves the document's status and \<open>indexingStats\<close> as
  they are. The second half holds, the first does not: the guard at the top of the
  handler is a plain \<open>return\<close>. With the sample document selected and both services
  disconnected, the call returns normally, writes nothing to the console, raises no
  alert and leaves \<open>processingStatus\<close> at \<open>completed\<close>: no error is signalled anywhere.
\<close>

theorem sendToWeaviate_raises_counterexample:
  "weaviateStatus demo_selected = ''disconnected'' \<and>
   currentDocument demo_selected = Some (demo_file Completed) \<and>
   fst (sendToWeaviate demo_selected) = Returned \<and>
   console (snd (sendToWeaviate demo_selected)) = [] \<and>
   alerts (snd (sendToWeaviate demo_selected)) = [] \<and>
   processingStatus (snd (sendToWeaviate demo_selected)) ''doc-1''
     = Some (in_progress Completed 100)"
  by (simp add: demo_selected_eq sendToWeaviate_def)

text \<open>
  Claim C1, amended. While the vector store or the embedder reports a status other than
  \<open>connected\<close>, \<open>sendToWeaviate\<close> returns at once without raising or recording an error,
  and the whole state is unchanged: the document's status, its \<open>indexingStats\<close> (unset
  stays unset), \<open>processingStatus\<close> and everything else.
\<close>

theorem sendToWeaviate_not_connected:
  "weaviateStatus s \<noteq> ''connected'' \<or> embeddingStatus s \<noteq> ''connected'' \<Longrightarrow>
   sendToWeaviate s = (Returned, s)"
  by (auto simp: sendToWeaviate_def split: option.splits)

theorem sendToWeaviate_not_connected_witness:
  "weaviateStatus demo_selected \<noteq> ''connected'' \<and>
   currentDocument demo_selected = Some (demo_file Completed) \<and>
   map f_indexingStats (files demo_selected) = [None] \<and>
   sendToWeaviate demo_selected = (Returned, demo_selected)"
proof -
  have w: "weaviateStatus demo_selected \<noteq> ''connected''"
    by (simp add: demo_selected_eq)
  have c: "currentDocument demo_selected = Some (demo_file Completed)"
    by (simp add: demo_selected_eq)
  have i: "map f_indexingStats (files demo_selected) = [None]"
    by (simp add: demo_selected_eq demo_file_def)
  from sendToWeaviate_not_connected [of demo_selected] w c i show ?thesis by simp
qed

subsection \<open>A failed indexing call\<close>

text \<open>
  Claim C2 says that a document in state \<open>indexing\<close> whose index call fails goes back to
  status \<open>completed\<close>, not \<open>error\<close>. The status that is \<open>indexing\<close> is
  \<open>processingStatus[id].status\<close> (no handler ever writes \<open>indexing\<close> to a file object),
  and the \<open>catch\<close> block sets it to \<open>error\<close>. For the completed sample document the file
  object still says \<open>completed\<close> while \<open>processingStatus\<close> says \<open>error\<close>. The handler
  does not ask for a completed document either: for a document whose processing had
  failed, the file object and \<open>processingStatus\<close> both say \<open>error\<close> after the failed
  index call.
\<close>

theorem index_failure_counterexample:
  "map f_status (files demo_connected) = [Completed] \<and>
   map_option ps_status (processingStatus (step SendToWeaviate demo_connected) ''doc-1'')
     = Some Indexing \<and>
   map_option ps_status (processingStatus demo_index_failed ''doc-1'') = Some Error \<and>
   map f_status (files demo_unprocessed) = [Error] \<and>
   map_option ps_status (processingStatus (step SendToWeaviate demo_unprocessed) ''doc-1'')
     = Some Indexing \<and>
   map_option ps_status
     (processingStatus (exec [SendToWeaviate, ApiRejected 2 ''Network Error''] demo_unprocessed)
        ''doc-1'') = Some Error \<and>
   map f_status (files (exec [SendToWeaviate, ApiRejected 2 ''Network Error''] demo_unprocessed))
     = [Error]"
  by (simp add: demo_index_failed_eq demo_connected_eq demo_selected_eq demo_unprocessed_eq
      exec_def handler_defs demo_file_def failed_file_def failed_def in_progress_def)

text \<open>
  Claim C2, amended. When the index call of a run fails, \<open>processingStatus[id]\<close> becomes
  \<open>{status: 'error', error: message}\<close> and an alert shows the message; the file objects
  (status, chunks, metadata, \<open>indexingStats\<close>), the global \<open>indexingStats\<close>, the
  selection, the displayed chunks, the configuration and the two connection statuses
  are unchanged. So a document whose file object said \<open>completed\<close> still says so and
  can be sent again without being processed again.
\<close>

theorem index_failure_keeps_file:
  assumes "awaiting_run s r IndexRun d"
  shows "processingStatus (api_rejected r msg s) d = Some (failed msg) \<and>
         alerts (api_rejected r msg s) = alerts s @ [(IndexFailed, msg)] \<and>
         files (api_rejected r msg s) = files s \<and>
         indexingStats (api_rejected r msg s) = indexingStats s \<and>
         currentDocument (api_rejected r msg s) = currentDocument s \<and>
         documentChunks (api_rejected r msg s) = documentChunks s \<and>
         config (api_rejected r msg s) = config s \<and>
         weaviateStatus (api_rejected r msg s) = weaviateStatus s \<and>
         embeddingStatus (api_rejected r msg s) = embeddingStatus s"
  using assms by (simp add: awaiting_run_def api_rejected_def settle_def Let_def)

theorem index_failure_keeps_file_witness:
  "awaiting_run (step SendToWeaviate demo_connected) 2 IndexRun ''doc-1'' \<and>
   map f_status (files (step SendToWeaviate demo_connected)) = [Completed] \<and>
   map f_status (files (api_rejected 2 ''Network Error'' (step SendToWeaviate demo_connected)))
     = [Completed] \<and>
   processingStatus (api_rejected 2 ''Network Error'' (step SendToWeaviate demo_connected))
     ''doc-1'' = Some (failed ''Network Error'')"
proof -
  have a: "awaiting_run (step SendToWeaviate demo_connected) 2 IndexRun ''doc-1''"
    by (simp add: awaiting_run_def demo_connected_eq demo_selected_eq handler_defs
        demo_file_def)
  have f: "map f_status (files (step SendToWeaviate demo_connected)) = [Completed]"
    by (simp add: demo_connected_eq demo_selected_eq handler_defs demo_file_def)
  from index_failure_keeps_file [OF a, of "''Network Error''"] a f show ?thesis by simp
qed

section \<open>What a settled call does to the state\<close>

lemma store_result_props:
  "f_id (store_result d res f) = f_id f \<and>
   (f_id f = d \<longrightarrow>
      f_status (store_result d res f) = Completed \<and>
      f_chunks (store_result d res f) = res_chunks res \<and>
      f_metadata (store_result d res f) = Some (res_metadata res)) \<and>
   (f_id f \<noteq> d \<longrightarrow> store_result d res f = f)"
  by (simp add: store_result_def)

lemma files_store_result:
  "(\<forall>f \<in> set (map (store_result d res) fs).
      f_id f = d \<longrightarrow>
        f_status f = Completed \<and> f_chunks f = res_chunks res \<and>
        f_metadata f = Some (res_metadata res)) \<and>
   map f_id (map (store_result d res) fs) = map f_id fs"
  by (simp add: store_result_props comp_def)

lemma store_error_props:
  "f_id (store_error d msg f) = f_id f \<and>
   (f_id f = d \<longrightarrow>
      f_status (store_error d msg f) = Error \<and> f_error (store_error d msg f) = Some msg) \<and>
   (f_id f \<noteq> d \<longrightarrow> store_error d msg f = f)"
  by (simp add: store_error_def)

lemma files_store_error:
  "(\<forall>f \<in> set (map (store_error d msg) fs).
      f_id f = d \<longrightarrow> f_status f = Error \<and> f_error f = Some msg) \<and>
   map f_id (map (store_error d msg) fs) = map f_id fs"
  by (simp add: store_error_props comp_def)

lemma api_resolved_reprocess:
  "awaiting_run s r ReprocessRun d \<Longrightarrow>
   api_resolved r (ProcessResponse res) s =
      (settle r True s)
        \<lparr>processingStatus := (processingStatus s)(d \<mapsto> in_progress Completed 100),
          files := map (store_result d res) (files s),
          documentChunks := res_chunks res\<rparr>"
  by (simp add: awaiting_run_def api_resolved_def settle_def Let_def)

lemma api_resolved_process:
  "awaiting_run s r ProcessRun d \<Longrightarrow>
   api_resolved r (ProcessResponse res) s =
      (settle r True s)
        \<lparr>processingStatus := (processingStatus s)(d \<mapsto> in_progress Completed 100),
          files := map (store_result d res) (files s),
          documentChunks :=
            (case run_current (runs s ! r) of
               None \<Rightarrow> documentChunks s
             | Some cur \<Rightarrow> if f_id cur = d then res_chunks res else documentChunks s)\<rparr>"
  by (simp add: awaiting_run_def api_resolved_def settle_def Let_def split: option.splits)

lemma api_rejected_eq:
  "awaiting_run s r k d \<Longrightarrow>
   api_rejected r msg s =
     (case k of
        ProcessRun \<Rightarrow>
          (settle r False s)
            \<lparr>processingStatus := (processingStatus s)(d \<mapsto> failed msg),
              console := console s @ [(ProcessFailed, msg)],
              files := map (store_error d msg) (files s)\<rparr>
      | ReprocessRun \<Rightarrow>
          (settle r False s)
            \<lparr>processingStatus := (processingStatus s)(d \<mapsto> failed msg),
              console := console s @ [(ReprocessFailed, msg)]\<rparr>
      | IndexRun \<Rightarrow>
          (settle r False s)
            \<lparr>processingStatus := (processingStatus s)(d \<mapsto> failed msg),
              console := console s @ [(IndexFailed, msg)],
              alerts := alerts s @ [(IndexFailed, msg)]\<rparr>)"
  by (simp add: awaiting_run_def api_rejected_def settle_def Let_def split: run_kind.splits)

lemma reprocess_start:
  "currentDocument s = Some cur \<Longrightarrow>
   reprocessCurrentDocument s =
     (Awaiting (length (runs s)),
      s\<lparr>processingStatus := (processingStatus s)(f_id cur \<mapsto> in_progress Reprocessing 0),
        runs := runs s @ [new_run ReprocessRun (f_id cur) (config s) (Some cur)]\<rparr>)"
  by (simp add: reprocessCurrentDocument_def)

lemma reprocess_start_awaiting:
  "currentDocument s = Some cur \<Longrightarrow>
   awaiting_run (snd (reprocessCurrentDocument s)) (length (runs s)) ReprocessRun (f_id cur)"
  by (simp add: reprocess_start awaiting_run_def new_run_def)

lemma process_start_awaiting:
  "awaiting_run (processDocument fid cfg cur s) (length (runs s)) ProcessRun fid"
  by (simp add: processDocument_def awaiting_run_def new_run_def)

lemma awaiting_run_settle_other:
  "r' \<noteq> r \<Longrightarrow> awaiting_run (settle r c s) r' k d = awaiting_run s r' k d"
  by (simp add: awaiting_run_def settle_def)

lemma awaiting_run_append:
  "awaiting_run s r k d \<Longrightarrow> awaiting_run (s\<lparr>runs := runs s @ [ru]\<rparr>) r k d"
  by (simp add: awaiting_run_def nth_append)

lemma demo_two_runs_runs:
  "runs demo_two_runs =
     [done_run ProcessRun None, done_run ProcessRun None,
      new_run ReprocessRun ''doc-1'' DEFAULT_CONFIG (Some (demo_file Completed)),
      new_run ReprocessRun ''doc-1'' (config demo_two_runs) (Some (demo_file Completed))]"
  "files demo_two_runs = [demo_file Completed]"
  "config demo_two_runs =
     config (handleConfigChange ''chunking'' ''chunkSize'' (JNum 400) demo_selected)"
  by (simp_all add: demo_two_runs_def demo_selected_eq exec_def handleConfigChange_def
      reprocessCurrentDocument_def demo_file_def)

section \<open>Reprocessing\<close>

text \<open>
  Claim C3. A successful reprocess leaves the document in status \<open>completed\<close>, whatever
  its status was before (also \<open>indexed\<close>), and replaces its chunks wholesale by the
  chunks of the response. \<open>reprocessCurrentDocument\<close> leaves a reprocessing run at its
  \<open>await\<close> (lemma \<open>reprocess_start_awaiting\<close>); whenever the call of such a run for the
  document id \<open>d\<close> is answered, every file object with id \<open>d\<close> gets status
  \<open>completed\<close> and the chunks and metadata of the response, no file object is added,
  dropped or renamed, \<open>processingStatus[d]\<close> becomes \<open>{completed, 100}\<close> and the
  displayed chunks are those of the response. (The copy of the file object that
  \<open>currentDocument\<close> holds since the last click is not a document record and is not
  written by this handler.)
\<close>

theorem reprocess_success_completed:
  assumes "awaiting_run s r ReprocessRun d"
  shows "(\<forall>f \<in> set (files (api_resolved r (ProcessResponse res) s)).
            f_id f = d \<longrightarrow>
              f_status f = Completed \<and> f_chunks f = res_chunks res \<and>
              f_metadata f = Some (res_metadata res)) \<and>
         map f_id (files (api_resolved r (ProcessResponse res) s)) = map f_id (files s) \<and>
         processingStatus (api_resolved r (ProcessResponse res) s) d
           = Some (in_progress Completed 100) \<and>
         documentChunks (api_resolved r (ProcessResponse res) s) = res_chunks res"
  using files_store_result [of d res "files s"]
  by (simp add: api_resolved_reprocess [OF assms] settle_def)

theorem reprocess_success_completed_witness:
  "map f_status (files demo_indexed) = [Indexed] \<and>
   awaiting_run (step Reprocess demo_indexed) 3 ReprocessRun ''doc-1'' \<and>
   files (api_resolved 3 (ProcessResponse demo_result_2) (step Reprocess demo_indexed)) =
     [(demo_file Completed)
        \<lparr>f_chunks := res_chunks demo_result_2,
          f_metadata := Some (res_metadata demo_result_2),
          f_indexingStats := Some demo_stats\<rparr>] \<and>
   processingStatus (api_resolved 3 (ProcessResponse demo_result_2) (step Reprocess demo_indexed))
     ''doc-1'' = Some (in_progress Completed 100) \<and>
   documentChunks (api_resolved 3 (ProcessResponse demo_result_2) (step Reprocess demo_indexed))
     = res_chunks demo_result_2"
proof -
  have a: "awaiting_run (step Reprocess demo_indexed) 3 ReprocessRun ''doc-1''"
    by (simp add: awaiting_run_def demo_indexed_eq demo_connected_eq demo_selected_eq
        handler_defs demo_file_def)
  have f: "files (api_resolved 3 (ProcessResponse demo_result_2) (step Reprocess demo_indexed)) =
     [(demo_file Completed)
        \<lparr>f_chunks := res_chunks demo_result_2,
          f_metadata := Some (res_metadata demo_result_2),
          f_indexingStats := Some demo_stats\<rparr>]"
    by (simp add: demo_indexed_eq demo_connected_eq demo_selected_eq handler_defs demo_file_def)
  have i: "map f_status (files demo_indexed) = [Indexed]"
    by (simp add: demo_indexed_eq demo_file_def)
  have t: "processingStatus
             (api_resolved 3 (ProcessResponse demo_result_2) (step Reprocess demo_indexed))
             ''doc-1'' = Some (in_progress Completed 100) \<and>
           documentChunks
             (api_resolved 3 (ProcessResponse demo_result_2) (step Reprocess demo_indexed))
             = res_chunks demo_result_2"
    using reprocess_success_completed [OF a, of demo_result_2] by blast
  from a f i t show ?thesis by blast
qed

section \<open>Failed calls\<close>

text \<open>
  Claim C4 says that after every failing processing, reprocessing or indexing call the
  document record has status \<open>error\<close> and carries the message. It holds for
  \<open>processDocument\<close> only. After a failed index call and after a failed reprocess call
  the file object of the sample document still has status \<open>completed\<close> and no
  \<open>error\<close> field; the message is in \<open>processingStatus\<close> alone, and there only until
  the run's interval, which the \<open>catch\<close> path does not clear, fires again and writes its
  progress entry over it.
\<close>

theorem error_on_record_counterexample:
  "map f_status (files demo_index_failed) = [Completed] \<and>
   map f_error (files demo_index_failed) = [None] \<and>
   processingStatus demo_index_failed ''doc-1'' = Some (failed ''Network Error'') \<and>
   processingStatus (step (Tick 2) demo_index_failed) ''doc-1'' = Some (in_progress Indexing 5) \<and>
   map f_error (files (step (Tick 2) demo_index_failed)) = [None] \<and>
   map f_status (files demo_reprocess_failed) = [Completed] \<and>
   map f_error (files demo_reprocess_failed) = [None] \<and>
   processingStatus demo_reprocess_failed ''doc-1'' = Some (failed ''Network Error'') \<and>
   processingStatus (step (Tick 2) demo_reprocess_failed) ''doc-1''
     = Some (in_progress Reprocessing 10) \<and>
   map f_error (files (step (Tick 2) demo_reprocess_failed)) = [None]"
  by (simp add: demo_index_failed_eq demo_reprocess_failed_eq demo_connected_eq demo_selected_eq
      interval_tick_def Let_def demo_file_def done_run_def)

text \<open>
  Claim C4, amended. Every failing processing, reprocessing or indexing call records
  \<open>{status: 'error', error: message}\<close> in \<open>processingStatus[id]\<close> and writes the
  message to the console. A failing \<open>processDocument\<close> call also sets the status of
  every file object with that id to \<open>error\<close> and stores the message on it; a failing
  index call leaves the file objects unchanged and raises an alert with the message.
\<close>

theorem failure_recorded:
  assumes "awaiting_run s r k d"
  shows "processingStatus (api_rejected r msg s) d = Some (failed msg) \<and>
         (\<exists>site. console (api_rejected r msg s) = console s @ [(site, msg)]) \<and>
         (k = ProcessRun \<longrightarrow>
            (\<forall>f \<in> set (files (api_rejected r msg s)).
               f_id f = d \<longrightarrow> f_status f = Error \<and> f_error f = Some msg) \<and>
            map f_id (files (api_rejected r msg s)) = map f_id (files s)) \<and>
         (k = IndexRun \<longrightarrow>
            files (api_rejected r msg s) = files s \<and>
            alerts (api_rejected r msg s) = alerts s @ [(IndexFailed, msg)])"
  using files_store_error [of d msg "files s"]
  by (cases k) (simp_all add: api_rejected_eq [OF assms] settle_def)

theorem failure_recorded_witness:
  "awaiting_run (exec [FileUpload [(0, ''file-1'')], UploadResolved 0 ''doc-1''] init_state)
     0 ProcessRun ''doc-1'' \<and>
   processingStatus
     (api_rejected 0 ''Network Error''
        (exec [FileUpload [(0, ''file-1'')], UploadResolved 0 ''doc-1''] init_state)) ''doc-1''
     = Some (failed ''Network Error'') \<and>
   files
     (api_rejected 0 ''Network Error''
        (exec [FileUpload [(0, ''file-1'')], UploadResolved 0 ''doc-1''] init_state))
     = [failed_file] \<and>
   awaiting_run (step SendToWeaviate demo_connected) 2 IndexRun ''doc-1'' \<and>
   files (api_rejected 2 ''Network Error'' (step SendToWeaviate demo_connected))
     = [demo_file Completed] \<and>
   alerts (api_rejected 2 ''Network Error'' (step SendToWeaviate demo_connected))
     = [(IndexFailed, ''Network Error'')]"
proof -
  have a: "awaiting_run (exec [FileUpload [(0, ''file-1'')], UploadResolved 0 ''doc-1''] init_state)
     0 ProcessRun ''doc-1''"
    by (simp add: awaiting_run_def exec_def init_state_def handler_defs)
  have f: "files
     (api_rejected 0 ''Network Error''
        (exec [FileUpload [(0, ''file-1'')], UploadResolved 0 ''doc-1''] init_state))
     = [failed_file]"
    by (simp add: exec_def init_state_def handler_defs failed_file_def)
  have t: "processingStatus
     (api_rejected 0 ''Network Error''
        (exec [FileUpload [(0, ''file-1'')], UploadResolved 0 ''doc-1''] init_state)) ''doc-1''
     = Some (failed ''Network Error'')"
    using failure_recorded [OF a, of "''Network Error''"] by blast
  have b: "awaiting_run (step SendToWeaviate demo_connected) 2 IndexRun ''doc-1''"
    by (simp add: awaiting_run_def demo_connected_eq demo_selected_eq handler_defs
        demo_file_def)
  have s: "files (step SendToWeaviate demo_connected) = [demo_file Completed]"
    "alerts (step SendToWeaviate demo_connected) = []"
    by (simp_all add: demo_connected_eq demo_selected_eq handler_defs demo_file_def)
  from failure_recorded [OF b, of "''Network Error''"] s
  have i: "files (api_rejected 2 ''Network Error'' (step SendToWeaviate demo_connected))
       = [demo_file Completed] \<and>
     alerts (api_rejected 2 ''Network Error'' (step SendToWeaviate demo_connected))
       = [(IndexFailed, ''Network Error'')]"
    by simp
  from a f t b i show ?thesis by blast
qed

section \<open>Chunk configurations that violate the constraint\<close>

text \<open>
  Claim C5 says that a chunk configuration violating \<open>chunkSize > minChunkSize > 0\<close> or
  \<open>0 \<le> overlapSize < chunkSize\<close> is rejected with a ConfigError before anything
  happens, the document's state unchanged. The front end has no such check. With the
  sliders at \<open>chunkSize = 200\<close> and \<open>overlapSize = 300\<close> (and the default
  \<open>minChunkSize = 200\<close>), and likewise with the spec's own \<open>chunkSize = 50\<close>,
  \<open>minChunkSize = 80\<close>, \<open>reprocessCurrentDocument\<close> does not stop: it moves
  \<open>processingStatus\<close> of the document from \<open>{completed, 100}\<close> to
  \<open>{reprocessing, 0}\<close> and sends the configuration as it is. An upload under the first
  configuration is sent to processing with it, and when the back end turns the call
  down the file object goes from \<open>pending\<close> to \<open>error\<close>.
\<close>

theorem config_rejected_counterexample:
  "\<not> chunking_constraint (config demo_bad_config) \<and>
   config_field (config demo_bad_config) ''chunking'' ''chunkSize'' = Some (JNum 200) \<and>
   config_field (config demo_bad_config) ''chunking'' ''minChunkSize'' = Some (JNum 200) \<and>
   config_field (config demo_bad_config) ''chunking'' ''overlapSize'' = Some (JNum 300) \<and>
   processingStatus demo_bad_config ''doc-1'' = Some (in_progress Completed 100) \<and>
   fst (reprocessCurrentDocument demo_bad_config) = Awaiting 2 \<and>
   processingStatus (snd (reprocessCurrentDocument demo_bad_config)) ''doc-1''
     = Some (in_progress Reprocessing 0) \<and>
   run_config (runs (snd (reprocessCurrentDocument demo_bad_config)) ! 2) = config demo_bad_config \<and>
   \<not> chunking_constraint (config demo_spec_config) \<and>
   config_field (config demo_spec_config) ''chunking'' ''chunkSize'' = Some (JNum 50) \<and>
   config_field (config demo_spec_config) ''chunking'' ''minChunkSize'' = Some (JNum 80) \<and>
   fst (reprocessCurrentDocument demo_spec_config) = Awaiting 2 \<and>
   processingStatus (snd (reprocessCurrentDocument demo_spec_config)) ''doc-1''
     = Some (in_progress Reprocessing 0) \<and>
   run_config (runs (snd (reprocessCurrentDocument demo_spec_config)) ! 2) = config demo_spec_config \<and>
   awaiting_run demo_bad_upload 0 ProcessRun ''doc-1'' \<and>
   \<not> chunking_constraint (run_config (runs demo_bad_upload ! 0)) \<and>
   map f_status (files demo_bad_upload) = [Pending] \<and>
   processingStatus demo_bad_upload ''doc-1'' = Some (in_progress Processing 0) \<and>
   map f_status (files (api_rejected 0 ''invalid configuration'' demo_bad_upload)) = [Error]"
proof -
  have a: "\<not> chunking_constraint (config demo_bad_config) \<and>
   config_field (config demo_bad_config) ''chunking'' ''chunkSize'' = Some (JNum 200) \<and>
   config_field (config demo_bad_config) ''chunking'' ''minChunkSize'' = Some (JNum 200) \<and>
   config_field (config demo_bad_config) ''chunking'' ''overlapSize'' = Some (JNum 300) \<and>
   processingStatus demo_bad_config ''doc-1'' = Some (in_progress Completed 100) \<and>
   fst (reprocessCurrentDocument demo_bad_config) = Awaiting 2 \<and>
   processingStatus (snd (reprocessCurrentDocument demo_bad_config)) ''doc-1''
     = Some (in_progress Reprocessing 0) \<and>
   run_config (runs (snd (reprocessCurrentDocument demo_bad_config)) ! 2) = config demo_bad_config"
    by (simp add: demo_bad_config_def demo_selected_eq exec_def
      handleConfigChange_def reprocessCurrentDocument_def new_run_def
      chunking_constraint_def config_field_def DEFAULT_CONFIG_def demo_file_def)
  have b: "\<not> chunking_constraint (config demo_spec_config) \<and>
   config_field (config demo_spec_config) ''chunking'' ''chunkSize'' = Some (JNum 50) \<and>
   config_field (config demo_spec_config) ''chunking'' ''minChunkSize'' = Some (JNum 80) \<and>
   fst (reprocessCurrentDocument demo_spec_config) = Awaiting 2 \<and>
   processingStatus (snd (reprocessCurrentDocument demo_spec_config)) ''doc-1''
     = Some (in_progress Reprocessing 0) \<and>
   run_config (runs (snd (reprocessCurrentDocument demo_spec_config)) ! 2) = config demo_spec_config"
    by (simp add: demo_spec_config_def demo_selected_eq exec_def
      handleConfigChange_def reprocessCurrentDocument_def new_run_def
      chunking_constraint_def config_field_def DEFAULT_CONFIG_def demo_file_def)
  have c: "awaiting_run demo_bad_upload 0 ProcessRun ''doc-1'' \<and>
   \<not> chunking_constraint (run_config (runs demo_bad_upload ! 0)) \<and>
   map f_status (files demo_bad_upload) = [Pending] \<and>
   processingStatus demo_bad_upload ''doc-1'' = Some (in_progress Processing 0) \<and>
   map f_status (files (api_rejected 0 ''invalid configuration'' demo_bad_upload)) = [Error]"
    by (simp add: demo_bad_upload_def exec_def init_state_def handler_defs awaiting_run_def
      chunking_constraint_def config_field_def DEFAULT_CONFIG_def)
  from a b c show ?thesis by blast
qed

text \<open>
  Claim C5, amended. The front end does not validate the chunk configuration: for every
  configuration, also one violating the constraint, \<open>reprocessCurrentDocument\<close> (for
  the selected document) and \<open>processDocument\<close> set \<open>processingStatus[id]\<close> to
  \<open>{reprocessing, 0}\<close> or \<open>{processing, 0}\<close> and send the configuration unchanged to
  the processing API, leaving the file objects as they are. Whether the configuration is
  rejected is the back end's decision; if the call of a reprocessing run fails, the
  file objects (status, chunks, metadata) are still unchanged and
  \<open>processingStatus[id]\<close> records status \<open>error\<close> with the message.
\<close>

theorem no_config_check:
  assumes "currentDocument s = Some cur"
  shows "fst (reprocessCurrentDocument s) = Awaiting (length (runs s)) \<and>
         awaiting_run (snd (reprocessCurrentDocument s)) (length (runs s)) ReprocessRun (f_id cur) \<and>
         run_config (runs (snd (reprocessCurrentDocument s)) ! length (runs s)) = config s \<and>
         processingStatus (snd (reprocessCurrentDocument s)) (f_id cur)
           = Some (in_progress Reprocessing 0) \<and>
         files (snd (reprocessCurrentDocument s)) = files s \<and>
         files (api_rejected (length (runs s)) msg (snd (reprocessCurrentDocument s))) = files s \<and>
         processingStatus (api_rejected (length (runs s)) msg (snd (reprocessCurrentDocument s)))
           (f_id cur) = Some (failed msg) \<and>
         awaiting_run (processDocument fid cfg cur' s) (length (runs s)) ProcessRun fid \<and>
         run_config (runs (processDocument fid cfg cur' s) ! length (runs s)) = cfg \<and>
         processingStatus (processDocument fid cfg cur' s) fid = Some (in_progress Processing 0) \<and>
         files (processDocument fid cfg cur' s) = files s"
proof -
  have p: "awaiting_run (processDocument fid cfg cur' s) (length (runs s)) ProcessRun fid \<and>
         run_config (runs (processDocument fid cfg cur' s) ! length (runs s)) = cfg \<and>
         processingStatus (processDocument fid cfg cur' s) fid = Some (in_progress Processing 0) \<and>
         files (processDocument fid cfg cur' s) = files s"
    by (simp add: process_start_awaiting) (simp add: processDocument_def new_run_def)
  have r: "fst (reprocessCurrentDocument s) = Awaiting (length (runs s)) \<and>
         awaiting_run (snd (reprocessCurrentDocument s)) (length (runs s)) ReprocessRun (f_id cur) \<and>
         run_config (runs (snd (reprocessCurrentDocument s)) ! length (runs s)) = config s \<and>
         processingStatus (snd (reprocessCurrentDocument s)) (f_id cur)
           = Some (in_progress Reprocessing 0) \<and>
         files (snd (reprocessCurrentDocument s)) = files s \<and>
         files (api_rejected (length (runs s)) msg (snd (reprocessCurrentDocument s))) = files s \<and>
         processingStatus (api_rejected (length (runs s)) msg (snd (reprocessCurrentDocument s)))
           (f_id cur) = Some (failed msg)"
    using reprocess_start_awaiting [OF assms]
    by (simp add: api_rejected_eq [OF reprocess_start_awaiting [OF assms]] settle_def)
       (simp add: reprocess_start [OF assms] new_run_def)
  from p r show ?thesis by blast
qed

theorem no_config_check_witness:
  "currentDocument demo_bad_config = Some (demo_file Completed) \<and>
   \<not> chunking_constraint (config demo_bad_config) \<and>
   fst (reprocessCurrentDocument demo_bad_config) = Awaiting 2 \<and>
   run_config (runs (snd (reprocessCurrentDocument demo_bad_config)) ! 2)
     = config demo_bad_config \<and>
   processingStatus (snd (reprocessCurrentDocument demo_bad_config)) ''doc-1''
     = Some (in_progress Reprocessing 0) \<and>
   files (api_rejected 2 ''invalid configuration'' (snd (reprocessCurrentDocument demo_bad_config)))
     = [demo_file Completed] \<and>
   processingStatus
     (api_rejected 2 ''invalid configuration'' (snd (reprocessCurrentDocument demo_bad_config)))
     ''doc-1'' = Some (failed ''invalid configuration'')"
proof -
  have c: "currentDocument demo_bad_config = Some (demo_file Completed)"
    by (simp add: demo_bad_config_def demo_selected_eq exec_def handleConfigChange_def)
  have n: "\<not> chunking_constraint (config demo_bad_config)"
    by (simp add: demo_bad_config_def demo_selected_eq exec_def handleConfigChange_def
        chunking_constraint_def config_field_def DEFAULT_CONFIG_def)
  have l: "length (runs demo_bad_config) = 2" "files demo_bad_config = [demo_file Completed]"
    by (simp_all add: demo_bad_config_def demo_selected_eq exec_def handleConfigChange_def)
  have i: "f_id (demo_file Completed) = ''doc-1''"
    by (simp add: demo_file_def)
  from no_config_check [OF c, of "''invalid configuration''"] c n l i
  show ?thesis by simp
qed

section \<open>Several runs for one document\<close>

text \<open>
  Claim C6 says that at most one run per document id is active and that a newer request
  supersedes an older one, whose result is discarded. Nothing in the component cancels
  or supersedes a run. A plain upload already leaves two runs for the document
  outstanding. After two reprocess requests, the first with \<open>chunkSize = 800\<close> and the
  second with \<open>chunkSize = 400\<close>, two runs for \<open>doc-1\<close> are outstanding; when the
  second is answered first and the first afterwards, the document ends with the chunks
  and metadata computed for the older request.
\<close>

theorem stale_result_counterexample:
  "length (filter (\<lambda>ru. run_awaiting ru \<and> run_doc ru = ''doc-1'') (runs demo_uploaded)) = 2 \<and>
   length (filter (\<lambda>ru. run_awaiting ru \<and> run_doc ru = ''doc-1'') (runs demo_two_runs)) = 2 \<and>
   config_field (run_config (runs demo_two_runs ! 2)) ''chunking'' ''chunkSize''
     = Some (JNum 800) \<and>
   config_field (run_config (runs demo_two_runs ! 3)) ''chunking'' ''chunkSize''
     = Some (JNum 400) \<and>
   config_field (config demo_two_runs) ''chunking'' ''chunkSize'' = Some (JNum 400) \<and>
   map f_chunks (files (step (ApiResolved 3 (ProcessResponse demo_result_2)) demo_two_runs))
     = [res_chunks demo_result_2] \<and>
   map f_chunks (files demo_stale) = [res_chunks demo_result] \<and>
   map f_metadata (files demo_stale) = [Some (res_metadata demo_result)] \<and>
   documentChunks demo_stale = res_chunks demo_result \<and>
   res_chunks demo_result \<noteq> res_chunks demo_result_2"
proof -
  have u: "length (filter (\<lambda>ru. run_awaiting ru \<and> run_doc ru = ''doc-1'') (runs demo_uploaded)) = 2"
    by (simp add: demo_uploaded_def exec_def init_state_def handler_defs)
  have r: "length (filter (\<lambda>ru. run_awaiting ru \<and> run_doc ru = ''doc-1'') (runs demo_two_runs)) = 2 \<and>
   config_field (run_config (runs demo_two_runs ! 2)) ''chunking'' ''chunkSize''
     = Some (JNum 800) \<and>
   config_field (run_config (runs demo_two_runs ! 3)) ''chunking'' ''chunkSize''
     = Some (JNum 400) \<and>
   config_field (config demo_two_runs) ''chunking'' ''chunkSize'' = Some (JNum 400) \<and>
   map f_chunks (files (step (ApiResolved 3 (ProcessResponse demo_result_2)) demo_two_runs))
     = [res_chunks demo_result_2] \<and>
   map f_chunks (files demo_stale) = [res_chunks demo_result] \<and>
   map f_metadata (files demo_stale) = [Some (res_metadata demo_result)] \<and>
   documentChunks demo_stale = res_chunks demo_result \<and>
   res_chunks demo_result \<noteq> res_chunks demo_result_2"
    by (simp add: demo_stale_def demo_two_runs_runs exec_def api_resolved_def settle_def
      store_result_def Let_def new_run_def done_run_def demo_file_def handleConfigChange_def
      demo_selected_eq config_field_def DEFAULT_CONFIG_def demo_result_def demo_result_2_def)
  from u r show ?thesis by blast
qed

text \<open>
  Claim C6, amended. Any number of runs for the same document id can be in flight:
  starting a run (by \<open>reprocessCurrentDocument\<close> or \<open>processDocument\<close>) and the answer
  to a run leave every other outstanding run outstanding. Every answer to a processing
  or reprocessing run overwrites the chunks and metadata of the file objects with that
  id by its own, so the document shows the result of the run that was answered last,
  which need not be the one requested last.
\<close>

theorem last_answer_wins:
  assumes "awaiting_run s r k d" and "k \<noteq> IndexRun"
  shows "(\<forall>f \<in> set (files (api_resolved r (ProcessResponse res) s)).
            f_id f = d \<longrightarrow>
              f_chunks f = res_chunks res \<and> f_metadata f = Some (res_metadata res)) \<and>
         map f_id (files (api_resolved r (ProcessResponse res) s)) = map f_id (files s) \<and>
         (\<forall>r' k' d'. r' \<noteq> r \<longrightarrow>
            awaiting_run (api_resolved r (ProcessResponse res) s) r' k' d'
              = awaiting_run s r' k' d') \<and>
         (\<forall>r' k' d'. awaiting_run s r' k' d' \<longrightarrow>
            awaiting_run (snd (reprocessCurrentDocument s)) r' k' d' \<and>
            awaiting_run (processDocument fid cfg cur s) r' k' d')"
proof -
  have rest: "\<forall>r' k' d'. awaiting_run s r' k' d' \<longrightarrow>
            awaiting_run (snd (reprocessCurrentDocument s)) r' k' d' \<and>
            awaiting_run (processDocument fid cfg cur s) r' k' d'"
    by (simp add: awaiting_run_def reprocessCurrentDocument_def processDocument_def nth_append
        split: option.splits)
  show ?thesis
  proof (cases k)
    case ProcessRun
    with assms(1) have a: "awaiting_run s r ProcessRun d" by simp
    show ?thesis
      using files_store_result [of d res "files s"] rest
      by (simp add: api_resolved_process [OF a] awaiting_run_def settle_def)
  next
    case ReprocessRun
    with assms(1) have a: "awaiting_run s r ReprocessRun d" by simp
    show ?thesis
      using files_store_result [of d res "files s"] rest
      by (simp add: api_resolved_reprocess [OF a] awaiting_run_def settle_def)
  next
    case IndexRun
    with assms(2) show ?thesis by simp
  qed
qed

theorem last_answer_wins_witness:
  "awaiting_run demo_two_runs 2 ReprocessRun ''doc-1'' \<and>
   awaiting_run demo_two_runs 3 ReprocessRun ''doc-1'' \<and>
   awaiting_run (api_resolved 3 (ProcessResponse demo_result_2) demo_two_runs)
     2 ReprocessRun ''doc-1'' \<and>
   awaiting_run (snd (reprocessCurrentDocument demo_two_runs)) 2 ReprocessRun ''doc-1'' \<and>
   files (api_resolved 3 (ProcessResponse demo_result_2) demo_two_runs)
     = [(demo_file Completed)\<lparr>f_chunks := res_chunks demo_result_2,
                               f_metadata := Some (res_metadata demo_result_2)\<rparr>]"
proof -
  have a2: "awaiting_run demo_two_runs 2 ReprocessRun ''doc-1''"
    and a3: "awaiting_run demo_two_runs 3 ReprocessRun ''doc-1''"
    by (simp_all add: awaiting_run_def demo_two_runs_runs new_run_def)
  have f: "files (api_resolved 3 (ProcessResponse demo_result_2) demo_two_runs)
     = [(demo_file Completed)\<lparr>f_chunks := res_chunks demo_result_2,
                               f_metadata := Some (res_metadata demo_result_2)\<rparr>]"
    by (simp add: api_resolved_def demo_two_runs_runs new_run_def settle_def Let_def
        store_result_def demo_file_def)
  have k: "ReprocessRun \<noteq> IndexRun" by simp
  have n: "(2::nat) \<noteq> 3" by simp
  note w = last_answer_wins [OF a3 k, of demo_result_2]
  from w n a2
  have r: "awaiting_run (api_resolved 3 (ProcessResponse demo_result_2) demo_two_runs)
     2 ReprocessRun ''doc-1''" by blast
  from w a2
  have s: "awaiting_run (snd (reprocessCurrentDocument demo_two_runs)) 2 ReprocessRun ''doc-1''"
    by blast
  from a2 a3 f r s show ?thesis by blast
qed

section \<open>The progress shown for a document\<close>

lemma entry_ok_in_progress:
  "entry_ok (in_progress st p) =
     (case st of
        Processing \<Rightarrow> 0 \<le> p \<and> p \<le> 90 | Reprocessing \<Rightarrow> 0 \<le> p \<and> p \<le> 90
      | Indexing \<Rightarrow> 0 \<le> p \<and> p \<le> 90 | Completed \<Rightarrow> p = 100 | Indexed \<Rightarrow> p = 100
      | _ \<Rightarrow> False)"
  by (simp add: entry_ok_def in_progress_def split: doc_status.splits)

lemma entry_ok_failed: "entry_ok (failed msg)"
  by (simp add: entry_ok_def failed_def)

lemma progress_inv_frame:
  "processingStatus s' = processingStatus s \<Longrightarrow> runs s' = runs s \<Longrightarrow>
   progress_inv s' = progress_inv s"
  by (simp add: progress_inv_def)

lemma progress_inv_entry:
  "progress_inv s \<Longrightarrow> entry_ok st \<Longrightarrow>
   progress_inv (s\<lparr>processingStatus := (processingStatus s)(d \<mapsto> st)\<rparr>)"
  by (simp add: progress_inv_def)

lemma progress_inv_add_run:
  "progress_inv s \<Longrightarrow> 0 \<le> run_progress ru \<Longrightarrow> progress_inv (s\<lparr>runs := runs s @ [ru]\<rparr>)"
  by (simp add: progress_inv_def)

lemma progress_inv_upd_run:
  assumes "progress_inv s" and "0 \<le> run_progress ru"
  shows "progress_inv (s\<lparr>runs := (runs s)[r := ru]\<rparr>)"
proof -
  have "set ((runs s)[r := ru]) \<subseteq> insert ru (set (runs s))"
    by (rule set_update_subset_insert)
  with assms show ?thesis
    by (auto simp: progress_inv_def)
qed

lemma progress_inv_run_nonneg:
  "progress_inv s \<Longrightarrow> r < length (runs s) \<Longrightarrow> 0 \<le> run_progress (runs s ! r)"
  by (simp add: progress_inv_def)

lemma progress_inv_processDocument:
  "progress_inv s \<Longrightarrow> progress_inv (processDocument fid cfg cur s)"
  unfolding processDocument_def
  using progress_inv_add_run
    [OF progress_inv_entry [of s "in_progress Processing 0" fid],
     of "new_run ProcessRun fid cfg cur"]
  by (simp add: entry_ok_in_progress new_run_def)

lemma progress_inv_fold_process:
  "progress_inv s \<Longrightarrow>
   progress_inv (fold (\<lambda>f. processDocument (f_id f) cfg cur) fs s)"
  by (induction fs arbitrary: s) (simp_all add: progress_inv_processDocument)

lemma progress_inv_pendingEffect: "progress_inv s \<Longrightarrow> progress_inv (pendingEffect s)"
  by (simp add: pendingEffect_def progress_inv_fold_process)

lemma progress_inv_upload_next:
  "progress_inv (upload_next t rest s) = progress_inv s"
  by (cases rest) (auto intro!: progress_inv_frame)

lemma progress_inv_handleFileUpload:
  "progress_inv (handleFileUpload newFiles s) = progress_inv s"
  by (auto simp: handleFileUpload_def intro!: progress_inv_frame split: list.splits)

lemma progress_inv_upload_resolved:
  assumes "progress_inv s"
  shows "progress_inv (upload_resolved t newid s)"
proof -
  have "progress_inv (s\<lparr>files := fs\<rparr>)" for fs
    using assms by (simp add: progress_inv_def)
  then show ?thesis
    using assms
    by (simp add: upload_resolved_def Let_def progress_inv_upload_next
        progress_inv_processDocument)
qed

lemma progress_inv_upload_rejected:
  assumes "progress_inv s"
  shows "progress_inv (upload_rejected t msg s)"
  using assms
  by (simp add: upload_rejected_def Let_def progress_inv_upload_next) (simp add: progress_inv_def)

lemma progress_inv_reprocess:
  assumes "progress_inv s"
  shows "progress_inv (snd (reprocessCurrentDocument s))"
proof (cases "currentDocument s")
  case None
  with assms show ?thesis by (simp add: reprocessCurrentDocument_def)
next
  case (Some cur)
  show ?thesis
    using progress_inv_add_run
      [OF progress_inv_entry [OF assms, of "in_progress Reprocessing 0" "f_id cur"],
       of "new_run ReprocessRun (f_id cur) (config s) (Some cur)"]
    by (simp add: reprocess_start [OF Some] entry_ok_in_progress new_run_def)
qed

lemma progress_inv_sendToWeaviate:
  assumes "progress_inv s"
  shows "progress_inv (snd (sendToWeaviate s))"
proof (cases "currentDocument s")
  case None
  with assms show ?thesis by (simp add: sendToWeaviate_def)
next
  case (Some cur)
  show ?thesis
    using assms progress_inv_add_run
      [OF progress_inv_entry [OF assms, of "in_progress Indexing 0" "f_id cur"],
       of "new_run IndexRun (f_id cur) (config s) (Some cur)"]
    by (simp add: sendToWeaviate_def Some entry_ok_in_progress new_run_def)
qed

lemma run_label_in_flight:
  "0 \<le> p \<Longrightarrow> p \<le> 90 \<Longrightarrow> entry_ok (in_progress (run_label k) p)"
  by (cases k) (simp_all add: entry_ok_in_progress)

lemma run_increment_pos: "0 < run_increment k"
  by (cases k) simp_all

lemma progress_inv_tick:
  assumes "progress_inv s"
  shows "progress_inv (interval_tick r s)"
proof (cases "r < length (runs s) \<and> run_interval (runs s ! r)")
  case False
  with assms show ?thesis by (auto simp: interval_tick_def)
next
  case True
  define ru where "ru = runs s ! r"
  define p where "p = run_progress ru + run_increment (run_kind ru)"
  have nonneg: "0 \<le> run_progress ru"
    using assms True by (simp add: ru_def progress_inv_run_nonneg)
  then have p0: "0 \<le> p"
    using run_increment_pos [of "run_kind ru"] by (simp add: p_def)
  have s1: "progress_inv (s\<lparr>runs := (runs s)[r := ru\<lparr>run_progress := p\<rparr>]\<rparr>)"
    using assms p0 by (intro progress_inv_upd_run) simp_all
  show ?thesis
  proof (cases "p \<le> 90")
    case le: True
    have "progress_inv
            ((s\<lparr>runs := (runs s)[r := ru\<lparr>run_progress := p\<rparr>]\<rparr>)
               \<lparr>processingStatus :=
                  (processingStatus (s\<lparr>runs := (runs s)[r := ru\<lparr>run_progress := p\<rparr>]\<rparr>))
                    (run_doc ru \<mapsto> in_progress (run_label (run_kind ru)) p)\<rparr>)"
      using s1 p0 le by (intro progress_inv_entry run_label_in_flight)
    then show ?thesis
      using True le by (simp add: interval_tick_def Let_def ru_def p_def)
  next
    case gt: False
    show ?thesis
      using True gt s1 by (simp add: interval_tick_def Let_def ru_def p_def)
  qed
qed


lemma progress_inv_settle:
  assumes "progress_inv s"
  shows "progress_inv (settle r c s)"
proof (cases "r < length (runs s)")
  case True
  with assms show ?thesis
    unfolding settle_def
    by (intro progress_inv_upd_run) (simp_all add: progress_inv_run_nonneg)
next
  case False
  then have "length (runs s) \<le> r"
    by simp
  then have "(runs s)[r := ru] = runs s" for ru
    by (rule list_update_beyond)
  with assms show ?thesis
    by (simp add: settle_def progress_inv_def)
qed

lemma progress_inv_files:
  "progress_inv (s\<lparr>files := fs\<rparr>) = progress_inv s"
  "progress_inv (s\<lparr>documentChunks := cs\<rparr>) = progress_inv s"
  "progress_inv (s\<lparr>indexingStats := st\<rparr>) = progress_inv s"
  "progress_inv (s\<lparr>console := co\<rparr>) = progress_inv s"
  "progress_inv (s\<lparr>alerts := al\<rparr>) = progress_inv s"
  "progress_inv (s\<lparr>connects := cn\<rparr>) = progress_inv s"
  "progress_inv (s\<lparr>weaviateStatus := w\<rparr>) = progress_inv s"
  "progress_inv (s\<lparr>embeddingStatus := e\<rparr>) = progress_inv s"
  "progress_inv (s\<lparr>config := cf\<rparr>) = progress_inv s"
  "progress_inv (s\<lparr>currentDocument := cd\<rparr>) = progress_inv s"
  by (simp_all add: progress_inv_def)

lemma progress_inv_api_resolved:
  assumes "progress_inv s"
  shows "progress_inv (api_resolved r resp s)"
proof (cases "r < length (runs s) \<and> run_awaiting (runs s ! r)")
  case False
  with assms show ?thesis by (auto simp: api_resolved_def)
next
  case True
  have e: "progress_inv
             ((settle r True s)\<lparr>processingStatus :=
                 (processingStatus (settle r True s))(d \<mapsto> in_progress st 100)\<rparr>)"
    if "st = Completed \<or> st = Indexed" for d st
    using that progress_inv_settle [OF assms, of r True]
    by (intro progress_inv_entry) (auto simp: entry_ok_in_progress)
  show ?thesis
    using True assms e [of Completed] e [of Indexed]
    by (simp add: api_resolved_def Let_def progress_inv_files
        split: run_kind.splits api_response.splits)
qed

lemma progress_inv_api_rejected:
  assumes "progress_inv s"
  shows "progress_inv (api_rejected r msg s)"
proof (cases "r < length (runs s) \<and> run_awaiting (runs s ! r)")
  case False
  with assms show ?thesis by (auto simp: api_rejected_def)
next
  case True
  have e: "progress_inv
             ((settle r False s)\<lparr>processingStatus :=
                 (processingStatus (settle r False s))(d \<mapsto> failed msg)\<rparr>)" for d
    using progress_inv_settle [OF assms, of r False]
    by (intro progress_inv_entry) (auto simp: entry_ok_failed)
  show ?thesis
    using True e
    by (simp add: api_rejected_def Let_def progress_inv_files split: run_kind.splits)
qed

lemma progress_inv_conn_resolved: "progress_inv (conn_resolved c a s) = progress_inv s"
  by (simp add: conn_resolved_def Let_def progress_inv_files
      split: conn_call.splits conn_answer.splits)

lemma progress_inv_conn_rejected: "progress_inv (conn_rejected c msg s) = progress_inv s"
  by (simp add: conn_rejected_def Let_def progress_inv_files split: conn_call.splits)

lemma progress_inv_step: "progress_inv s \<Longrightarrow> progress_inv (step e s)"
proof (cases e)
  case (FileUpload x)
  assume "progress_inv s" with FileUpload show ?thesis
    by (simp add: progress_inv_handleFileUpload)
next
  case (UploadResolved t n)
  assume "progress_inv s" with UploadResolved show ?thesis
    by (simp add: progress_inv_upload_resolved)
next
  case (UploadRejected t m)
  assume "progress_inv s" with UploadRejected show ?thesis
    by (simp add: progress_inv_upload_rejected)
next
  case PendingEffect
  assume "progress_inv s" with PendingEffect show ?thesis
    by (simp add: progress_inv_pendingEffect)
next
  case (SelectDocument i)
  assume "progress_inv s" with SelectDocument show ?thesis
    by (simp add: handleSelectDocument_def progress_inv_files)
next
  case (ConfigChange a b c)
  assume "progress_inv s" with ConfigChange show ?thesis
    by (simp add: handleConfigChange_def progress_inv_files)
next
  case Reprocess
  assume "progress_inv s" with Reprocess show ?thesis
    by (simp add: progress_inv_reprocess)
next
  case SendToWeaviate
  assume "progress_inv s" with SendToWeaviate show ?thesis
    by (simp add: progress_inv_sendToWeaviate)
next
  case (Tick r)
  assume "progress_inv s" with Tick show ?thesis
    by (simp add: progress_inv_tick)
next
  case (ApiResolved r resp)
  assume "progress_inv s" with ApiResolved show ?thesis
    by (simp add: progress_inv_api_resolved)
next
  case (ApiRejected r m)
  assume "progress_inv s" with ApiRejected show ?thesis
    by (simp add: progress_inv_api_rejected)
next
  case ConnectWeaviate
  assume "progress_inv s" with ConnectWeaviate show ?thesis
    by (simp add: connectToWeaviate_def progress_inv_files)
next
  case ConnectEmbedder
  assume "progress_inv s" with ConnectEmbedder show ?thesis
    by (simp add: connectToEmbedder_def progress_inv_files)
next
  case (ConnResolved c a)
  assume "progress_inv s" with ConnResolved show ?thesis
    by (simp add: progress_inv_conn_resolved)
next
  case (ConnRejected c m)
  assume "progress_inv s" with ConnRejected show ?thesis
    by (simp add: progress_inv_conn_rejected)
qed

lemma progress_inv_exec: "progress_inv s \<Longrightarrow> progress_inv (exec evs s)"
  unfolding exec_def
  by (induction evs arbitrary: s) (simp_all add: progress_inv_step)

lemma progress_inv_init: "progress_inv init_state"
  by (simp add: progress_inv_def init_state_def)

lemma entry_ok_bounds:
  assumes "entry_ok st"
  shows "(\<forall>p. ps_progress st = Some p \<longrightarrow> 0 \<le> p \<and> p \<le> 100) \<and>
         (ps_status st \<in> {Processing, Reprocessing, Indexing} \<longrightarrow>
            (\<exists>p. ps_progress st = Some p \<and> 0 \<le> p \<and> p \<le> 90)) \<and>
         (ps_progress st = Some 100 \<longleftrightarrow> ps_status st \<in> {Completed, Indexed})"
  using assms
  by (cases "ps_status st"; cases "ps_progress st") (simp_all add: entry_ok_def)


lemma no_new_100_same:
  "processingStatus s' = processingStatus s \<Longrightarrow> no_new_100 s s'"
  by (simp add: no_new_100_def)

lemma no_new_100_trans:
  "no_new_100 s s' \<Longrightarrow> no_new_100 s' s'' \<Longrightarrow> no_new_100 s s''"
  by (simp add: no_new_100_def)

lemma no_new_100_entry:
  "ps_progress st \<noteq> Some 100 \<Longrightarrow> processingStatus s' = (processingStatus s)(d \<mapsto> st) \<Longrightarrow>
   no_new_100 s s'"
  by (auto simp: no_new_100_def)

lemma no_new_100_processDocument: "no_new_100 s (processDocument fid cfg cur s)"
  by (rule no_new_100_entry [of "in_progress Processing 0" _ _ fid])
     (simp_all add: processDocument_def in_progress_def)

lemma no_new_100_fold_process:
  "no_new_100 s (fold (\<lambda>f. processDocument (f_id f) cfg cur) fs s)"
proof (induction fs arbitrary: s)
  case Nil
  show ?case by (simp add: no_new_100_same)
next
  case (Cons f fs)
  show ?case
    using no_new_100_trans [OF no_new_100_processDocument Cons.IH]
    by simp
qed

lemma processingStatus_upload_next:
  "processingStatus (upload_next t rest s) = processingStatus s"
  by (cases rest) auto

lemma no_new_100_upload_resolved: "no_new_100 s (upload_resolved t newid s)"
proof (cases "t < length (uploads s) \<and> up_awaiting (uploads s ! t)")
  case False
  then show ?thesis by (auto simp: upload_resolved_def no_new_100_same)
next
  case True
  define s1 where "s1 = s\<lparr>files := map (mark_pending (up_file (uploads s ! t)) newid) (files s)\<rparr>"
  have a: "no_new_100 s s1"
    by (simp add: s1_def no_new_100_same)
  have b: "no_new_100 s1
     (processDocument newid (up_config (uploads s ! t)) (up_current (uploads s ! t)) s1)"
    by (rule no_new_100_processDocument)
  have c: "no_new_100
     (processDocument newid (up_config (uploads s ! t)) (up_current (uploads s ! t)) s1)
     (upload_next t (up_rest (uploads s ! t))
        (processDocument newid (up_config (uploads s ! t)) (up_current (uploads s ! t)) s1))"
    by (simp add: no_new_100_same processingStatus_upload_next)
  from no_new_100_trans [OF no_new_100_trans [OF a b] c] True show ?thesis
    by (simp add: upload_resolved_def Let_def s1_def)
qed

lemma no_new_100_tick: "no_new_100 s (interval_tick r s)"
proof (cases "r < length (runs s) \<and> run_interval (runs s ! r) \<and>
    run_progress (runs s ! r) + run_increment (run_kind (runs s ! r)) \<le> 90")
  case True
  show ?thesis
    by (rule no_new_100_entry
        [of "in_progress (run_label (run_kind (runs s ! r)))
               (run_progress (runs s ! r) + run_increment (run_kind (runs s ! r)))"
            _ _ "run_doc (runs s ! r)"])
       (use True in \<open>simp_all add: interval_tick_def Let_def in_progress_def\<close>)
next
  case False
  then show ?thesis
    by (auto simp: interval_tick_def Let_def no_new_100_same)
qed

lemma tick_writes:
  assumes "processingStatus (interval_tick r s) d = Some st"
    and "processingStatus s d \<noteq> Some st"
  shows "ps_status st \<in> {Processing, Reprocessing, Indexing} \<and>
         (\<exists>p. ps_progress st = Some p \<and> p \<le> 90)"
proof (cases "r < length (runs s) \<and> run_interval (runs s ! r) \<and>
    run_progress (runs s ! r) + run_increment (run_kind (runs s ! r)) \<le> 90")
  case True
  then have "processingStatus (interval_tick r s) =
     (processingStatus s)(run_doc (runs s ! r) \<mapsto>
        in_progress (run_label (run_kind (runs s ! r)))
          (run_progress (runs s ! r) + run_increment (run_kind (runs s ! r))))"
    by (simp add: interval_tick_def Let_def)
  with assms have "st = in_progress (run_label (run_kind (runs s ! r)))
          (run_progress (runs s ! r) + run_increment (run_kind (runs s ! r)))"
    by (simp split: if_splits)
  with True show ?thesis
    by (cases "run_kind (runs s ! r)") (simp_all add: in_progress_def)
next
  case False
  then have "processingStatus (interval_tick r s) = processingStatus s"
    by (auto simp: interval_tick_def Let_def)
  with assms show ?thesis by simp
qed

lemma no_new_100_api_rejected: "no_new_100 s (api_rejected r msg s)"
proof (cases "r < length (runs s) \<and> run_awaiting (runs s ! r)")
  case True
  show ?thesis
    by (rule no_new_100_entry [of "failed msg" _ _ "run_doc (runs s ! r)"])
       (use True in \<open>simp_all add: api_rejected_def Let_def failed_def settle_def
          split: run_kind.splits\<close>)
next
  case False
  then show ?thesis
    by (auto simp: api_rejected_def no_new_100_same)
qed

lemma no_new_100_reprocess: "no_new_100 s (snd (reprocessCurrentDocument s))"
proof (cases "currentDocument s")
  case None
  then show ?thesis by (simp add: reprocessCurrentDocument_def no_new_100_same)
next
  case (Some cur)
  show ?thesis
    by (rule no_new_100_entry [of "in_progress Reprocessing 0" _ _ "f_id cur"])
       (simp_all add: reprocess_start [OF Some] in_progress_def)
qed

lemma no_new_100_sendToWeaviate: "no_new_100 s (snd (sendToWeaviate s))"
proof (cases "fst (sendToWeaviate s) = Returned")
  case True
  then have "snd (sendToWeaviate s) = s"
    by (auto simp: sendToWeaviate_def split: option.splits if_splits)
  then show ?thesis by (simp add: no_new_100_same)
next
  case False
  then obtain cur where cur: "currentDocument s = Some cur"
    by (cases "currentDocument s") (auto simp: sendToWeaviate_def)
  show ?thesis
    by (rule no_new_100_entry [of "in_progress Indexing 0" _ _ "f_id cur"])
       (use False cur in \<open>simp_all add: sendToWeaviate_def in_progress_def split: if_splits\<close>)
qed

lemma api_resolved_writes:
  assumes "processingStatus (api_resolved r resp s) d = Some st"
    and "processingStatus s d \<noteq> Some st"
  shows "\<exists>k. awaiting_run s r k d \<and> answers k resp"
proof (cases "r < length (runs s) \<and> run_awaiting (runs s ! r) \<and>
    answers (run_kind (runs s ! r)) resp")
  case True
  then have "processingStatus (api_resolved r resp s) =
     (processingStatus s)(run_doc (runs s ! r) \<mapsto>
        in_progress (finished (run_kind (runs s ! r))) 100)"
    by (cases "run_kind (runs s ! r)"; cases resp)
       (simp_all add: api_resolved_def Let_def settle_def)
  with assms have "d = run_doc (runs s ! r)"
    by (simp split: if_splits)
  with True show ?thesis
    by (auto simp: awaiting_run_def)
next
  case False
  then have "api_resolved r resp s = s"
    by (cases "run_kind (runs s ! r)"; cases resp) (auto simp: api_resolved_def Let_def)
  with assms show ?thesis by simp
qed

lemma api_resolved_sets_100:
  assumes "awaiting_run s r k d" and "answers k resp"
  shows "processingStatus (api_resolved r resp s) d = Some (in_progress (finished k) 100)"
  using assms
  by (cases k; cases resp) (simp_all add: awaiting_run_def api_resolved_def Let_def settle_def)


lemma no_new_100_step:
  "(\<forall>r resp. e \<noteq> ApiResolved r resp) \<Longrightarrow> no_new_100 s (step e s)"
proof (cases e)
  case (FileUpload x)
  then show ?thesis
    by (simp add: handleFileUpload_def no_new_100_same split: list.splits)
next
  case (UploadResolved t n)
  then show ?thesis by (simp add: no_new_100_upload_resolved)
next
  case (UploadRejected t m)
  then show ?thesis
    by (simp add: upload_rejected_def Let_def no_new_100_same processingStatus_upload_next)
next
  case PendingEffect
  then show ?thesis by (simp add: pendingEffect_def no_new_100_fold_process)
next
  case (SelectDocument i)
  then show ?thesis by (simp add: handleSelectDocument_def no_new_100_same)
next
  case (ConfigChange a b c)
  then show ?thesis by (simp add: handleConfigChange_def no_new_100_same)
next
  case Reprocess
  then show ?thesis by (simp add: no_new_100_reprocess)
next
  case SendToWeaviate
  then show ?thesis by (simp add: no_new_100_sendToWeaviate)
next
  case (Tick r)
  then show ?thesis by (simp add: no_new_100_tick)
next
  case (ApiResolved r resp)
  assume "\<forall>r resp. e \<noteq> ApiResolved r resp"
  with ApiResolved show ?thesis by simp
next
  case (ApiRejected r m)
  then show ?thesis by (simp add: no_new_100_api_rejected)
next
  case ConnectWeaviate
  then show ?thesis by (simp add: connectToWeaviate_def no_new_100_same)
next
  case ConnectEmbedder
  then show ?thesis by (simp add: connectToEmbedder_def no_new_100_same)
next
  case (ConnResolved c a)
  then show ?thesis
    by (simp add: conn_resolved_def Let_def no_new_100_same
        split: conn_call.splits conn_answer.splits)
next
  case (ConnRejected c m)
  then show ?thesis
    by (simp add: conn_rejected_def Let_def no_new_100_same split: conn_call.splits)
qed

lemma step_writes_100:
  assumes "processingStatus (step e s) d = Some st"
    and "ps_progress st = Some 100"
    and "processingStatus s d \<noteq> Some st"
  shows "\<exists>r k resp. e = ApiResolved r resp \<and> awaiting_run s r k d \<and> answers k resp"
proof (cases "\<exists>r resp. e = ApiResolved r resp")
  case True
  then obtain r resp where e: "e = ApiResolved r resp" by blast
  from api_resolved_writes [of r resp s d st] assms e show ?thesis by simp
next
  case False
  then have "no_new_100 s (step e s)"
    by (intro no_new_100_step) blast
  with assms show ?thesis
    by (simp add: no_new_100_def)
qed

lemma exec_append: "exec (evs @ evs') s = exec evs' (exec evs s)"
  by (simp add: exec_def)

text \<open>
  Claim C10 says, for every document id, that the recorded progress never exceeds 90
  while a processing, reprocessing or indexing run is in flight. The bound goes with
  the entry that a run writes, not with a run being in flight: several runs can share
  one document id, and each writes the one entry \<open>processingStatus[id]\<close>. After a
  plain upload two processing runs are outstanding for the document; when the first is
  answered the entry reads \<open>{completed, 100}\<close> while the second run is still in flight
  with its interval registered, and the next firing of that interval puts the entry
  back to \<open>{processing, 5}\<close>.
\<close>

theorem progress_in_flight_counterexample:
  "awaiting_run demo_first_answer 1 ProcessRun ''doc-1'' \<and>
   run_interval (runs demo_first_answer ! 1) \<and>
   processingStatus demo_first_answer ''doc-1'' = Some (in_progress Completed 100) \<and>
   processingStatus (step (Tick 1) demo_first_answer) ''doc-1''
     = Some (in_progress Processing 5)"
  by (simp add: demo_first_answer_def demo_uploaded_def exec_def init_state_def handler_defs
      awaiting_run_def)

text \<open>
  Claim C10, amended. In every state the component can reach, a progress value recorded
  in \<open>processingStatus\<close> lies between 0 and 100; an entry whose status is
  \<open>processing\<close>, \<open>reprocessing\<close> or \<open>indexing\<close> shows a progress between 0 and 90,
  and an entry shows 100 exactly when its status is \<open>completed\<close> or \<open>indexed\<close>. In
  any state, whatever an interval callback records is an in-flight status with a
  progress of at most 90; the answer to an outstanding call sets the entry of its
  document to the finished status with progress 100; and an event that puts a new entry
  with progress 100 into \<open>processingStatus\<close> is such an answer. (The callback's local
  counter itself goes on counting beyond 90; it is the recorded value that stops
  there.)
\<close>

theorem progress_bounds:
  "(\<forall>d st. processingStatus (exec evs init_state) d = Some st \<longrightarrow>
      (\<forall>p. ps_progress st = Some p \<longrightarrow> 0 \<le> p \<and> p \<le> 100) \<and>
      (ps_status st \<in> {Processing, Reprocessing, Indexing} \<longrightarrow>
         (\<exists>p. ps_progress st = Some p \<and> 0 \<le> p \<and> p \<le> 90)) \<and>
      (ps_progress st = Some 100 \<longleftrightarrow> ps_status st \<in> {Completed, Indexed})) \<and>
   (\<forall>r d st. processingStatus (interval_tick r s) d = Some st \<and>
      processingStatus s d \<noteq> Some st \<longrightarrow>
        ps_status st \<in> {Processing, Reprocessing, Indexing} \<and>
        (\<exists>p. ps_progress st = Some p \<and> p \<le> 90)) \<and>
   (\<forall>r k d resp. awaiting_run s r k d \<and> answers k resp \<longrightarrow>
      processingStatus (api_resolved r resp s) d = Some (in_progress (finished k) 100)) \<and>
   (\<forall>e d st. processingStatus (step e s) d = Some st \<and> ps_progress st = Some 100 \<and>
      processingStatus s d \<noteq> Some st \<longrightarrow>
        (\<exists>r k resp. e = ApiResolved r resp \<and> awaiting_run s r k d \<and> answers k resp))"
proof -
  have inv: "progress_inv (exec evs init_state)"
    by (rule progress_inv_exec [OF progress_inv_init])
  have a: "\<forall>d st. processingStatus (exec evs init_state) d = Some st \<longrightarrow>
      (\<forall>p. ps_progress st = Some p \<longrightarrow> 0 \<le> p \<and> p \<le> 100) \<and>
      (ps_status st \<in> {Processing, Reprocessing, Indexing} \<longrightarrow>
         (\<exists>p. ps_progress st = Some p \<and> 0 \<le> p \<and> p \<le> 90)) \<and>
      (ps_progress st = Some 100 \<longleftrightarrow> ps_status st \<in> {Completed, Indexed})"
  proof (intro allI impI)
    fix d st
    assume "processingStatus (exec evs init_state) d = Some st"
    with inv have "entry_ok st"
      by (simp add: progress_inv_def)
    then show "(\<forall>p. ps_progress st = Some p \<longrightarrow> 0 \<le> p \<and> p \<le> 100) \<and>
      (ps_status st \<in> {Processing, Reprocessing, Indexing} \<longrightarrow>
         (\<exists>p. ps_progress st = Some p \<and> 0 \<le> p \<and> p \<le> 90)) \<and>
      (ps_progress st = Some 100 \<longleftrightarrow> ps_status st \<in> {Completed, Indexed})"
      by (rule entry_ok_bounds)
  qed
  have b: "\<forall>r d st. processingStatus (interval_tick r s) d = Some st \<and>
      processingStatus s d \<noteq> Some st \<longrightarrow>
        ps_status st \<in> {Processing, Reprocessing, Indexing} \<and>
        (\<exists>p. ps_progress st = Some p \<and> p \<le> 90)"
    using tick_writes by blast
  have c: "\<forall>r k d resp. awaiting_run s r k d \<and> answers k resp \<longrightarrow>
      processingStatus (api_resolved r resp s) d = Some (in_progress (finished k) 100)"
    using api_resolved_sets_100 by blast
  have d: "\<forall>e d st. processingStatus (step e s) d = Some st \<and> ps_progress st = Some 100 \<and>
      processingStatus s d \<noteq> Some st \<longrightarrow>
        (\<exists>r k resp. e = ApiResolved r resp \<and> awaiting_run s r k d \<and> answers k resp)"
    using step_writes_100 by blast
  from a b c d show ?thesis by blast
qed

lemma demo_ticking_eq:
  "demo_ticking =
     demo_selected
       \<lparr> processingStatus := [''doc-1'' \<mapsto> in_progress Reprocessing 90],
         runs := [done_run ProcessRun None, done_run ProcessRun None,
                  (new_run ReprocessRun ''doc-1'' DEFAULT_CONFIG (Some (demo_file Completed)))
                    \<lparr>run_progress := 100\<rparr>] \<rparr>"
  by (simp add: demo_ticking_def demo_selected_eq exec_def handler_defs demo_file_def)

theorem progress_bounds_witness:
  "processingStatus demo_ticking ''doc-1'' = Some (in_progress Reprocessing 90) \<and>
   run_progress (runs demo_ticking ! 2) = 100 \<and>
   ps_status (in_progress Reprocessing 90) \<in> {Processing, Reprocessing, Indexing} \<and>
   (\<exists>p. ps_progress (in_progress Reprocessing 90) = Some p \<and> 0 \<le> p \<and> p \<le> 90) \<and>
   processingStatus (interval_tick 2 demo_ticking) ''doc-1''
     = Some (in_progress Reprocessing 90) \<and>
   awaiting_run demo_ticking 2 ReprocessRun ''doc-1'' \<and>
   processingStatus (api_resolved 2 (ProcessResponse demo_result_2) demo_ticking) ''doc-1''
     = Some (in_progress Completed 100)"
proof -
  have tr: "demo_ticking =
      exec (trace_selected @
        [Reprocess, Tick 2, Tick 2, Tick 2, Tick 2, Tick 2, Tick 2, Tick 2, Tick 2, Tick 2,
         Tick 2]) init_state"
    by (simp add: demo_ticking_def demo_selected_def exec_append)
  have e: "processingStatus demo_ticking ''doc-1'' = Some (in_progress Reprocessing 90)"
    and c: "run_progress (runs demo_ticking ! 2) = 100"
    and a: "awaiting_run demo_ticking 2 ReprocessRun ''doc-1''"
    and t: "processingStatus (interval_tick 2 demo_ticking) ''doc-1''
              = Some (in_progress Reprocessing 90)"
    by (simp_all add: demo_ticking_eq awaiting_run_def new_run_def interval_tick_def Let_def
        demo_selected_eq)
  have k: "answers ReprocessRun (ProcessResponse demo_result_2)"
    by simp
  have f: "finished ReprocessRun = Completed"
    by simp
  note pb = progress_bounds
    [of "trace_selected @
        [Reprocess, Tick 2, Tick 2, Tick 2, Tick 2, Tick 2, Tick 2, Tick 2, Tick 2, Tick 2,
         Tick 2]" demo_ticking, folded tr]
  from pb e have
    "ps_status (in_progress Reprocessing 90) \<in> {Processing, Reprocessing, Indexing} \<longrightarrow>
     (\<exists>p. ps_progress (in_progress Reprocessing 90) = Some p \<and> 0 \<le> p \<and> p \<le> 90)"
    by blast
  moreover have "ps_status (in_progress Reprocessing 90) \<in> {Processing, Reprocessing, Indexing}"
    by (simp add: in_progress_def)
  moreover from pb a k f have
    "processingStatus (api_resolved 2 (ProcessResponse demo_result_2) demo_ticking) ''doc-1''
       = Some (in_progress Completed 100)"
    by metis
  ultimately show ?thesis
    using e c a t by blast
qed

section \<open>Properties of the fixed-window chunker\<close>

lemma windows_empty: "n \<le> i \<Longrightarrow> windows n w st i = []"
  by (simp add: windows.simps [of n w st i])

lemma windows_final: "0 < st \<Longrightarrow> i < n \<Longrightarrow> n \<le> i + w \<Longrightarrow> windows n w st i = [(i, n)]"
  by (simp add: windows.simps [of n w st i])

lemma windows_next:
  "0 < st \<Longrightarrow> i + w < n \<Longrightarrow> windows n w st i = (i, i + w) # windows n w st (i + st)"
  by (simp add: windows.simps [of n w st i])

lemma windows_nonempty: "0 < st \<Longrightarrow> i < n \<Longrightarrow> windows n w st i \<noteq> []"
  by (cases "n \<le> i + w") (simp_all add: windows_final windows_next)

lemma windows_nth:
  "0 < st \<Longrightarrow> st \<le> w \<Longrightarrow> k < length (windows n w st i) \<Longrightarrow>
   windows n w st i ! k =
     (i + k * st, if Suc k = length (windows n w st i) then n else i + k * st + w)"
proof (induction n w st i arbitrary: k rule: windows.induct)
  case (1 n w st i)
  show ?case
  proof (cases "n \<le> i")
    case True
    with "1.prems" show ?thesis by (simp add: windows_empty)
  next
    case False
    show ?thesis
    proof (cases "n \<le> i + w")
      case True
      with False "1.prems" show ?thesis by (simp add: windows_final)
    next
      case far: False
      then have eq: "windows n w st i = (i, i + w) # windows n w st (i + st)"
        using "1.prems" by (simp add: windows_next)
      have ne: "windows n w st (i + st) \<noteq> []"
        using far "1.prems" by (intro windows_nonempty) simp_all
      show ?thesis
      proof (cases k)
        case 0
        with eq ne show ?thesis by simp
      next
        case (Suc j)
        with "1.prems" eq have j: "j < length (windows n w st (i + st))" by simp
        have c1: "\<not> (st = 0 \<or> n \<le> i)"
          using False "1.prems"(1) by simp
        from "1.IH" [OF c1 far "1.prems"(1,2) j]
        have "windows n w st (i + st) ! j =
          (i + st + j * st,
           if Suc j = length (windows n w st (i + st)) then n else i + st + j * st + w)"
          by simp
        with Suc eq show ?thesis by (simp add: algebra_simps)
      qed
    qed
  qed
qed

lemma windows_full:
  "0 < st \<Longrightarrow> Suc k < length (windows n w st i) \<Longrightarrow> i + k * st + w < n"
proof (induction n w st i arbitrary: k rule: windows.induct)
  case (1 n w st i)
  show ?case
  proof (cases "n \<le> i")
    case True
    with "1.prems" show ?thesis by (simp add: windows_empty)
  next
    case False
    show ?thesis
    proof (cases "n \<le> i + w")
      case True
      with False "1.prems" show ?thesis by (simp add: windows_final)
    next
      case far: False
      then have eq: "windows n w st i = (i, i + w) # windows n w st (i + st)"
        using "1.prems" by (simp add: windows_next)
      show ?thesis
      proof (cases k)
        case 0
        with far show ?thesis by simp
      next
        case (Suc j)
        with "1.prems" eq have j: "Suc j < length (windows n w st (i + st))" by simp
        have c1: "\<not> (st = 0 \<or> n \<le> i)"
          using False "1.prems"(1) by simp
        from "1.IH" [OF c1 far "1.prems"(1) j]
        have "i + st + j * st + w < n" by simp
        with Suc show ?thesis by (simp add: algebra_simps)
      qed
    qed
  qed
qed

lemma merge_last_closed:
  "merge_last m xs =
     (if 2 \<le> length xs \<and> snd (last xs) - fst (last xs) < m
      then butlast (butlast xs) @ [(fst (last (butlast xs)), snd (last xs))]
      else xs)"
proof (induction m xs rule: merge_last.induct)
  case (1 m)
  show ?case by simp
next
  case (2 m x)
  show ?case by simp
next
  case (3 m a b c d)
  show ?case by simp
next
  case (4 m x y z zs)
  then show ?case by simp
qed


lemma windows_last_reach:
  "0 < st \<Longrightarrow> st \<le> w \<Longrightarrow> Suc k = length (windows n w st i) \<Longrightarrow>
   i + k * st < n \<and> n \<le> i + k * st + w"
proof (induction n w st i arbitrary: k rule: windows.induct)
  case (1 n w st i)
  show ?case
  proof (cases "n \<le> i")
    case True
    with "1.prems" show ?thesis by (simp add: windows_empty)
  next
    case False
    show ?thesis
    proof (cases "n \<le> i + w")
      case True
      with False "1.prems" show ?thesis by (simp add: windows_final)
    next
      case far: False
      then have eq: "windows n w st i = (i, i + w) # windows n w st (i + st)"
        using "1.prems" by (simp add: windows_next)
      have c1: "\<not> (st = 0 \<or> n \<le> i)"
        using False "1.prems"(1) by simp
      have ne: "windows n w st (i + st) \<noteq> []"
        using far "1.prems" by (intro windows_nonempty) simp_all
      show ?thesis
      proof (cases k)
        case 0
        with eq "1.prems"(3) ne show ?thesis by simp
      next
        case (Suc j)
        with "1.prems" eq have j: "Suc j = length (windows n w st (i + st))" by simp
        from "1.IH" [OF c1 far "1.prems"(1,2) j]
        have "i + st + j * st < n \<and> n \<le> i + st + j * st + w" by simp
        with Suc show ?thesis by (simp add: algebra_simps)
      qed
    qed
  qed
qed

text \<open>The offsets of the chunks, for a stride between 1 and the width.\<close>

lemma offsets_props:
  fixes n w st m :: nat
  assumes st: "0 < st" "st \<le> w"
  defines "os \<equiv> merge_last m (windows n w st 0)"
  shows "(\<forall>k<length os. os ! k = (k * st, if Suc k = length os then n else k * st + w)) \<and>
         (\<forall>k. Suc k < length os \<longrightarrow> k * st + w < n) \<and>
         (os = [] \<longleftrightarrow> n = 0) \<and>
         (os \<noteq> [] \<longrightarrow>
            (n - (length os - 1) * st \<le> w \<and>
               (length os = 1 \<or> m \<le> n - (length os - 1) * st)) \<or>
            (w < n - (length os - 1) * st \<and> n - (length os - 1) * st - st < m))"
proof -
  define ws where "ws = windows n w st 0"
  define K where "K = length ws"
  have nth: "ws ! k = (k * st, if Suc k = K then n else k * st + w)" if "k < K" for k
    using windows_nth [OF st, of k n 0] that by (simp add: ws_def K_def)
  have full: "k * st + w < n" if "Suc k < K" for k
    using windows_full [OF st(1), of k n w 0] that by (simp add: ws_def K_def)
  have reach: "k * st < n \<and> n \<le> k * st + w" if "Suc k = K" for k
    using windows_last_reach [OF st, of k n 0] that by (simp add: ws_def K_def)
  have empty: "ws = [] \<longleftrightarrow> n = 0"
    using windows_nonempty [OF st(1), of 0 n w] windows_empty [of n 0 w st]
    by (auto simp: ws_def)
  show ?thesis
  proof (cases "2 \<le> K \<and> snd (last ws) - fst (last ws) < m")
    case False
    then have os: "os = ws"
      by (auto simp: os_def ws_def K_def merge_last_closed)
    have tail: "K = 1 \<or> m \<le> n - (K - 1) * st" if "ws \<noteq> []"
    proof (cases "2 \<le> K")
      case True
      with that have "last ws = ws ! (K - 1)"
        by (simp add: last_conv_nth K_def)
      with nth [of "K - 1"] True have "last ws = ((K - 1) * st, n)"
        by simp
      with False True show ?thesis by simp
    next
      case False
      moreover from that have "K \<noteq> 0" by (simp add: K_def)
      ultimately have "K = 1" by arith
      then show ?thesis by simp
    qed
    have last_le: "n - (K - 1) * st \<le> w" if "ws \<noteq> []"
    proof -
      from that have "Suc (K - 1) = K" by (cases ws) (simp_all add: K_def)
      from reach [OF this] show ?thesis by arith
    qed
    show ?thesis
      unfolding os using nth full empty tail last_le
      by (simp add: K_def)
  next
    case True
    then have K2: "2 \<le> K" and short: "snd (last ws) - fst (last ws) < m"
      by simp_all
    from K2 obtain pre x y where ws: "ws = pre @ [x, y]"
    proof (cases ws rule: rev_cases)
      case Nil
      with K2 show ?thesis by (simp add: K_def)
    next
      case (snoc ys y)
      show ?thesis
      proof (cases ys rule: rev_cases)
        case Nil
        with snoc K2 show ?thesis by (simp add: K_def)
      next
        case (snoc pre x)
        with \<open>ws = ys @ [y]\<close> that show ?thesis by simp
      qed
    qed
    define P where "P = length pre"
    have K: "K = P + 2"
      by (simp add: K_def ws P_def)
    have x: "x = (P * st, P * st + w)"
      using nth [of P] by (simp add: K ws P_def)
    have y: "y = (Suc P * st, n)"
      using nth [of "Suc P"] by (simp add: K ws P_def nth_append)
    have os: "os = pre @ [(P * st, n)]"
      using True x y
      by (simp add: os_def merge_last_closed K_def ws butlast_append flip: ws_def)
    have len: "length os = Suc P"
      by (simp add: os P_def)
    have early: "os ! k = (k * st, k * st + w)" if "k < P" for k
    proof -
      from that have "os ! k = ws ! k"
        by (simp add: os ws nth_append P_def)
      with nth [of k] that show ?thesis
        by (simp add: K)
    qed
    have final: "os ! P = (P * st, n)"
      by (simp add: os P_def)
    have a: "\<forall>k<length os. os ! k = (k * st, if Suc k = length os then n else k * st + w)"
    proof (intro allI impI)
      fix k assume "k < length os"
      with len have "k < P \<or> k = P" by arith
      then show "os ! k = (k * st, if Suc k = length os then n else k * st + w)"
      proof
        assume "k < P"
        with early [of k] len show ?thesis by simp
      next
        assume "k = P"
        with final len show ?thesis by simp
      qed
    qed
    have b: "\<forall>k. Suc k < length os \<longrightarrow> k * st + w < n"
      using full len by (simp add: K)
    have c: "os = [] \<longleftrightarrow> n = 0"
      using empty by (simp add: os ws)
    from full [of P] have wide: "w < n - P * st"
      by (simp add: K)
    from short have "n - Suc P * st < m"
      by (simp add: ws y)
    then have "n - P * st - st < m"
      by (simp add: algebra_simps)
    with wide have d: "w < n - (length os - 1) * st \<and> n - (length os - 1) * st - st < m"
      by (simp add: len)
    from a b c d show ?thesis by blast
  qed
qed


lemma valid_stride:
  "valid_chunk_config c \<Longrightarrow>
   0 < nat (chunkSize c - overlapSize c) \<and> nat (chunkSize c - overlapSize c) \<le> nat (chunkSize c)"
  unfolding valid_chunk_config_def by arith

lemma scenario_offsets:
  "chunkSize c = 100 \<Longrightarrow> overlapSize c = 20 \<Longrightarrow> minChunkSize c = 30 \<Longrightarrow>
   fixed_offsets 250 c = [(0, 100), (80, 180), (160, 250)]"
  by (simp add: fixed_offsets_def windows_next windows_final)

text \<open>
  Claim C7. Under the \<open>fixed\<close> strategy and a valid configuration, \<open>split\<close> cuts
  the text with a sliding window of width \<open>chunkSize\<close> and stride
  \<open>chunkSize - overlapSize\<close>: chunk \<open>k\<close> starts at \<open>k\<close> times the stride and holds the
  text between its offsets; every chunk but the last is a full window that ends before
  the end of the text, and the last chunk ends with the text. The last chunk is either
  the final, truncated window, which stands alone when it is the only chunk or at least
  \<open>minChunkSize\<close> long, or it is a full window extended by a final window shorter than
  \<open>minChunkSize\<close>. In particular a text of 250 characters with \<open>chunkSize = 100\<close>,
  \<open>overlapSize = 20\<close>, \<open>minChunkSize = 30\<close> gives exactly the chunks at
  \<open>[0,100)\<close>, \<open>[80,180)\<close>, \<open>[160,250)\<close>.
\<close>

theorem split_fixed_sliding_window:
  "(valid_chunk_config c \<longrightarrow>
      (\<exists>cs. split_fixed txt c = Inr cs \<and>
         (\<forall>k<length cs.
            tc_index (cs ! k) = k \<and>
            tc_start (cs ! k) = k * nat (chunkSize c - overlapSize c) \<and>
            tc_end (cs ! k) =
              (if Suc k = length cs then length txt
               else k * nat (chunkSize c - overlapSize c) + nat (chunkSize c)) \<and>
            tc_content (cs ! k) =
              take (tc_end (cs ! k) - tc_start (cs ! k)) (drop (tc_start (cs ! k)) txt)) \<and>
         (\<forall>k. Suc k < length cs \<longrightarrow>
            k * nat (chunkSize c - overlapSize c) + nat (chunkSize c) < length txt) \<and>
         (cs = [] \<longleftrightarrow> txt = []) \<and>
         (cs \<noteq> [] \<longrightarrow>
            (tc_end (last cs) - tc_start (last cs) \<le> nat (chunkSize c) \<and>
               (length cs = 1 \<or> nat (minChunkSize c) \<le> tc_end (last cs) - tc_start (last cs))) \<or>
            (nat (chunkSize c) < tc_end (last cs) - tc_start (last cs) \<and>
               tc_end (last cs) - tc_start (last cs) - nat (chunkSize c - overlapSize c)
                 < nat (minChunkSize c))))) \<and>
   (length txt = 250 \<and> chunkSize c = 100 \<and> overlapSize c = 20 \<and> minChunkSize c = 30 \<longrightarrow>
      offsets_of (split_fixed txt c) = Inr [(0, 100), (80, 180), (160, 250)] \<and>
      map_sum id (map tc_content) (split_fixed txt c)
        = Inr [take 100 txt, take 100 (drop 80 txt), drop 160 txt])"
proof (intro conjI impI)
  assume valid: "valid_chunk_config c"
  define st where "st = nat (chunkSize c - overlapSize c)"
  define w where "w = nat (chunkSize c)"
  define m where "m = nat (minChunkSize c)"
  define n where "n = length txt"
  define os where "os = fixed_offsets n c"
  define cs where "cs = map (\<lambda>k. mk_chunk txt k (os ! k)) [0..<length os]"
  have st: "0 < st" "st \<le> w"
    using valid_stride [OF valid] by (simp_all add: st_def w_def)
  have os_eq: "os = merge_last m (windows n w st 0)"
    by (simp add: os_def fixed_offsets_def st_def w_def m_def)
  note props = offsets_props [OF st, of m n, folded os_eq]
  have split: "split_fixed txt c = Inr cs"
    using valid by (simp add: split_fixed_def cs_def os_def n_def)
  have len: "length cs = length os"
    by (simp add: cs_def)
  have nth: "cs ! k = mk_chunk txt k (os ! k)" if "k < length os" for k
    using that by (simp add: cs_def)
  have a: "\<forall>k<length cs.
            tc_index (cs ! k) = k \<and>
            tc_start (cs ! k) = k * st \<and>
            tc_end (cs ! k) = (if Suc k = length cs then n else k * st + w) \<and>
            tc_content (cs ! k) =
              take (tc_end (cs ! k) - tc_start (cs ! k)) (drop (tc_start (cs ! k)) txt)"
    using props nth by (simp add: len mk_chunk_def)
  have b: "\<forall>k. Suc k < length cs \<longrightarrow> k * st + w < n"
    using props by (simp add: len)
  have c: "cs = [] \<longleftrightarrow> txt = []"
    using props by (simp add: cs_def n_def)
  have d: "(tc_end (last cs) - tc_start (last cs) \<le> w \<and>
               (length cs = 1 \<or> m \<le> tc_end (last cs) - tc_start (last cs))) \<or>
            (w < tc_end (last cs) - tc_start (last cs) \<and>
               tc_end (last cs) - tc_start (last cs) - st < m)" if ne: "cs \<noteq> []"
  proof -
    from ne have k: "length cs - 1 < length cs" "Suc (length cs - 1) = length cs"
      by simp_all
    from ne have "last cs = cs ! (length cs - 1)"
      by (rule last_conv_nth)
    with a k have "tc_end (last cs) - tc_start (last cs) = n - (length cs - 1) * st"
      by simp
    moreover from ne have "os \<noteq> []"
      by (simp add: cs_def)
    ultimately show ?thesis
      using props by (simp add: len)
  qed
  show "\<exists>cs. split_fixed txt c = Inr cs \<and>
         (\<forall>k<length cs.
            tc_index (cs ! k) = k \<and>
            tc_start (cs ! k) = k * nat (chunkSize c - overlapSize c) \<and>
            tc_end (cs ! k) =
              (if Suc k = length cs then length txt
               else k * nat (chunkSize c - overlapSize c) + nat (chunkSize c)) \<and>
            tc_content (cs ! k) =
              take (tc_end (cs ! k) - tc_start (cs ! k)) (drop (tc_start (cs ! k)) txt)) \<and>
         (\<forall>k. Suc k < length cs \<longrightarrow>
            k * nat (chunkSize c - overlapSize c) + nat (chunkSize c) < length txt) \<and>
         (cs = [] \<longleftrightarrow> txt = []) \<and>
         (cs \<noteq> [] \<longrightarrow>
            (tc_end (last cs) - tc_start (last cs) \<le> nat (chunkSize c) \<and>
               (length cs = 1 \<or> nat (minChunkSize c) \<le> tc_end (last cs) - tc_start (last cs))) \<or>
            (nat (chunkSize c) < tc_end (last cs) - tc_start (last cs) \<and>
               tc_end (last cs) - tc_start (last cs) - nat (chunkSize c - overlapSize c)
                 < nat (minChunkSize c)))"
    using split a b c d
    unfolding st_def w_def m_def n_def by blast
next
  assume s: "length txt = 250 \<and> chunkSize c = 100 \<and> overlapSize c = 20 \<and> minChunkSize c = 30"
  then have valid: "valid_chunk_config c"
    by (simp add: valid_chunk_config_def)
  from s have os: "fixed_offsets (length txt) c = [(0, 100), (80, 180), (160, 250)]"
    and os': "fixed_offsets 250 c = [(0, 100), (80, 180), (160, 250)]"
    by (simp_all add: scenario_offsets)
  have upt: "[0..<3] = [0, 1, 2]"
    by (simp add: upt_rec)
  show "offsets_of (split_fixed txt c) = Inr [(0, 100), (80, 180), (160, 250)]"
    using valid by (simp add: offsets_of_def split_fixed_def os upt mk_chunk_def)
  show "map_sum id (map tc_content) (split_fixed txt c)
        = Inr [take 100 txt, take 100 (drop 80 txt), drop 160 txt]"
    using valid s by (simp add: split_fixed_def os' upt mk_chunk_def)
qed

theorem split_fixed_sliding_window_witness:
  "valid_chunk_config scenario_config \<and>
   length (replicate 250 CHR ''a'') = 250 \<and>
   offsets_of (split_fixed (replicate 250 CHR ''a'') scenario_config)
     = Inr [(0, 100), (80, 180), (160, 250)]"
proof -
  have v: "valid_chunk_config scenario_config"
    by (simp add: valid_chunk_config_def scenario_config_def)
  have c: "chunkSize scenario_config = 100 \<and> overlapSize scenario_config = 20 \<and>
           minChunkSize scenario_config = 30"
    by (simp add: scenario_config_def)
  have l: "length (replicate 250 CHR ''a'') = 250"
    by simp
  from split_fixed_sliding_window [of scenario_config "replicate 250 CHR ''a''"] v c l
  show ?thesis by blast
qed

end
